theory Spec2Isabelle
  imports
    Main
    "HOL-Library.Word"
    "HOL-Library.AList"
    "HOL-Library.Sublist"
    "HOL-Library.Multiset"
    "HOL-Library.Char_ord"
    "HOL-Library.List_Lexorder"
begin

section \<open>Entries and dynamic values\<close>

text \<open>
  A Go \<open>interface{}\<close> value as the operators see it: a string, a byte slice, nil, a
  \<open>map[string]interface{}\<close>, or a value of any other dynamic type (\<open>float64\<close>,
  \<open>bool\<close>, a slice). The operators use a value of another type only through its default
  rendering \<open>fmt.Sprintf("%v", v)\<close>, so \<open>VOther\<close> carries that rendering.
\<close>

datatype val =
    VString string
  | VBytes "8 word list"
  | VNil
  | VMap "(string \<times> val) list"
  | VOther string

datatype severity =
  Default | Trace | Debug | Info | Info2 | Warn | Error | Error2 | Error3 | Fatal

text \<open>
  \<open>entry.Entry\<close>. The timestamp is a signed 64-bit count of nanoseconds since the Unix
  epoch, which is what \<open>time.Unix(0, n)\<close> stores.
\<close>

record entry =
  Timestamp :: "64 word"
  Body :: val
  Attributes :: "(string \<times> string) list"
  Resource :: "(string \<times> string) list"
  Severity :: severity
  SeverityText :: string

datatype error =
    UnmarshalFailed
  | MissingTimestamp
  | TimestampNotString
  | ParseTimestampFailed
  | MissingCursor
  | CursorNotString
  | MissingMessage
  | CreateEntryFailed
  | SeverityNotInt
  | InvalidSeverity int
  | PersisterSetFailed
  | BuildTransformerFailed
  | OnlyOneOfFirstLast
  | OneOfFirstLastRequired
  | CompileFirstFailed
  | CompileLastFailed
  | MissingCombineField
  | InvalidOverwriteWith string
  | FieldNotString
  | FieldSetFailed
  | PredicateFailed

text \<open>The outcome of a call that may return an error or panic.\<close>

datatype 'a result = Ok 'a | Err error | Panic

definition entry_New :: entry where
  "entry_New = \<lparr>Timestamp = 0, Body = VNil, Attributes = [], Resource = [],
     Severity = Default, SeverityText = []\<rparr>"

definition AddAttribute :: "string \<Rightarrow> string \<Rightarrow> entry \<Rightarrow> entry" where
  "AddAttribute k v e = e\<lparr>Attributes := AList.update k v (Attributes e)\<rparr>"

subsection \<open>strconv\<close>

definition digit :: "char \<Rightarrow> nat option" where
  "digit c = (let n = (of_char c :: nat) in if 48 \<le> n \<and> n \<le> 57 then Some (n - 48) else None)"

fun digits :: "string \<Rightarrow> nat \<Rightarrow> nat option" where
  "digits [] acc = Some acc"
| "digits (c # cs) acc =
     (case digit c of None \<Rightarrow> None | Some d \<Rightarrow> digits cs (acc * 10 + d))"

text \<open>
  \<open>strconv.ParseInt(s, 10, 64)\<close>: an optional sign, then at least one decimal digit and
  nothing else; a value outside the signed 64-bit range is an error. \<open>None\<close> stands for
  the returned error.
\<close>

definition ParseInt :: "string \<Rightarrow> int option" where
  "ParseInt s =
     (case s of
        [] \<Rightarrow> None
      | c # cs \<Rightarrow>
          (let neg = (c = CHR ''-'');
               ds = (if c = CHR ''+'' \<or> c = CHR ''-'' then cs else s)
           in if ds = [] then None
              else (case digits ds 0 of
                      None \<Rightarrow> None
                    | Some n \<Rightarrow>
                        (let v = (if neg then - int n else int n)
                         in if - (2 ^ 63) \<le> v \<and> v < 2 ^ 63 then Some v else None))))"

text \<open>\<open>strconv.Atoi\<close> on a platform whose \<open>int\<close> has 64 bits.\<close>

definition Atoi :: "string \<Rightarrow> int option" where
  "Atoi s = ParseInt s"

subsection \<open>fmt and base64\<close>

definition digit_char :: "nat \<Rightarrow> char" where
  "digit_char d = char_of (48 + d)"

fun show_nat :: "nat \<Rightarrow> string" where
  "show_nat n = (if n < 10 then [digit_char n] else show_nat (n div 10) @ [digit_char (n mod 10)])"

declare show_nat.simps [simp del]

fun join :: "string \<Rightarrow> string list \<Rightarrow> string" where
  "join sep [] = []"
| "join sep [x] = x"
| "join sep (x # y # ys) = x @ sep @ join sep (y # ys)"

text \<open>
  The default rendering \<open>%v\<close>: a string is printed as it is, a byte slice as the list of
  its bytes, a map with its keys sorted.
\<close>

fun sprintf_v :: "val \<Rightarrow> string" where
  "sprintf_v (VString s) = s"
| "sprintf_v (VBytes bs) = ''['' @ join '' '' (map (\<lambda>b. show_nat (unat b)) bs) @ '']''"
| "sprintf_v VNil = ''<nil>''"
| "sprintf_v (VMap m) =
     ''map['' @ join '' '' (map (\<lambda>kr. fst kr @ '':'' @ snd kr)
        (sort_key fst (AList.clearjunk (map (\<lambda>kv. (fst kv, sprintf_v (snd kv))) m)))) @ '']''"
| "sprintf_v (VOther r) = r"

definition b64chars :: string where
  "b64chars = ''ABCDEFGHIJKLMNOPQRSTUVWXYZabcdefghijklmnopqrstuvwxyz0123456789+/''"

fun b64enc :: "nat list \<Rightarrow> string" where
  "b64enc [] = []"
| "b64enc [a] = [b64chars ! (a div 4), b64chars ! ((a mod 4) * 16), CHR ''='', CHR ''='']"
| "b64enc [a, b] =
     [b64chars ! (a div 4), b64chars ! ((a mod 4) * 16 + b div 16),
      b64chars ! ((b mod 16) * 4), CHR ''='']"
| "b64enc (a # b # c # r) =
     [b64chars ! (a div 4), b64chars ! ((a mod 4) * 16 + b div 16),
      b64chars ! ((b mod 16) * 4 + c div 64), b64chars ! (c mod 64)] @ b64enc r"

text \<open>\<open>base64.StdEncoding.EncodeToString\<close>.\<close>

definition EncodeToString :: "8 word list \<Rightarrow> string" where
  "EncodeToString bs = b64enc (map unat bs)"


section \<open>The journald input\<close>

text \<open>
  Modelled from the spec: the persister is an interface (\<open>operator.Persister\<close>) whose
  implementations are not among the sources. The spec calls it an opaque durable key/value
  storage; its \<open>Set\<close> returns an error, which the reader checks. Here a persister is a
  key/value map together with a flag telling whether its \<open>Set\<close> fails; a failing \<open>Set\<close>
  stores nothing.
\<close>

record persister =
  kv :: "string \<rightharpoonup> string"
  failing :: bool

definition persister_Get :: "persister \<Rightarrow> string \<Rightarrow> string option" where
  "persister_Get p k = kv p k"

definition persister_Set :: "persister \<Rightarrow> string \<Rightarrow> string \<Rightarrow> error option \<times> persister" where
  "persister_Set p k v =
     (if failing p then (Some PersisterSetFailed, p) else (None, p\<lparr>kv := (kv p)(k \<mapsto> v)\<rparr>))"

text \<open>What the reader task does to the outside, in the order it does it.\<close>

datatype effect =
    SetEffect string string
  | WriteEffect entry
  | WarnEffect error

text \<open>
  \<open>JournaldInput\<close>: \<open>json\<close> is the decoder of the operator (\<open>jsoniter\<close>, an external
  library), which turns a line into a \<open>map[string]interface{}\<close> or fails. The map is a
  list of bindings, and \<open>range\<close> visits them in the order of the list.
\<close>

record JournaldInput =
  json :: "string \<Rightarrow> error + (string \<times> val) list"
  persister :: persister
  effects :: "effect list"

definition lastReadCursorKey :: string where
  "lastReadCursorKey = ''lastReadCursor''"

definition severityMapping :: "severity list" where
  "severityMapping = [Fatal, Error3, Error2, Error, Warn, Info2, Info, Debug]"

definition severityText :: "string list" where
  "severityText =
     [''emerg'', ''alert'', ''crit'', ''err'', ''warning'', ''notice'', ''info'', ''debug'']"

text \<open>
  \<open>addSeverity\<close>: the type assertion \<open>sev.(string)\<close> has one result, so it panics on a
  value that is not a string.
\<close>

definition addSeverity :: "entry \<Rightarrow> val \<Rightarrow> entry result" where
  "addSeverity e sev =
     (case sev of
        VString s \<Rightarrow>
          (case Atoi s of
             None \<Rightarrow> Err SeverityNotInt
           | Some sevInt \<Rightarrow>
               if sevInt < 0 \<or> sevInt > 7 then Err (InvalidSeverity sevInt)
               else Ok (e\<lparr>Severity := severityMapping ! nat sevInt,
                          SeverityText := severityText ! nat sevInt\<rparr>))
      | _ \<Rightarrow> Panic)"

definition convertField :: "val \<Rightarrow> string" where
  "convertField v =
     (case v of
        VBytes bs \<Rightarrow> EncodeToString bs
      | VNil \<Rightarrow> []
      | _ \<Rightarrow> sprintf_v v)"

text \<open>
  Modelled from the spec: \<open>InputOperator.NewEntry\<close> belongs to the helper package, which is
  not among the sources. By the spec the value given becomes the body of the new Entry; the
  other fields are those of a fresh Entry. The call returns an error in the code, so the
  result is a sum.
\<close>

definition NewEntry :: "val \<Rightarrow> error + entry" where
  "NewEntry v = Inr (entry_New\<lparr>Body := v\<rparr>)"

text \<open>The loop over the remaining bindings of the decoded map.\<close>

fun addFields :: "(string \<times> val) list \<Rightarrow> entry \<Rightarrow> entry result" where
  "addFields [] e = Ok e"
| "addFields ((k, v) # kvs) e =
     (if k = ''PRIORITY'' then
        (case addSeverity e v of
           Ok e' \<Rightarrow> addFields kvs e'
         | Err x \<Rightarrow> Err x
         | Panic \<Rightarrow> Panic)
      else
        (let val = convertField v
         in if val \<noteq> [] then addFields kvs (AddAttribute k val e) else addFields kvs e))"

text \<open>The checked type assertion \<open>s, ok := v.(string)\<close>.\<close>

definition asString :: "val \<Rightarrow> string option" where
  "asString v = (case v of VString s \<Rightarrow> Some s | _ \<Rightarrow> None)"

definition parseJournalEntry :: "JournaldInput \<Rightarrow> string \<Rightarrow> (entry \<times> string) result" where
  "parseJournalEntry operator line =
     (case json operator line of
        Inl err \<Rightarrow> Err err
      | Inr body \<Rightarrow>
     (case map_of body ''__REALTIME_TIMESTAMP'' of
        None \<Rightarrow> Err MissingTimestamp
      | Some timestamp \<Rightarrow>
     (case asString timestamp of
        None \<Rightarrow> Err TimestampNotString
      | Some timestampString \<Rightarrow>
     (case ParseInt timestampString of
        None \<Rightarrow> Err ParseTimestampFailed
      | Some timestampInt \<Rightarrow>
     (let body1 = AList.delete ''__REALTIME_TIMESTAMP'' body in
     (case map_of body1 ''__CURSOR'' of
        None \<Rightarrow> Err MissingCursor
      | Some cursor \<Rightarrow>
     (case asString cursor of
        None \<Rightarrow> Err CursorNotString
      | Some cursorString \<Rightarrow>
     (case map_of body1 ''MESSAGE'' of
        None \<Rightarrow> Err MissingMessage
      | Some msg \<Rightarrow>
     (let body2 = AList.delete ''MESSAGE'' body1 in
     (case NewEntry msg of
        Inl err \<Rightarrow> Err CreateEntryFailed
      | Inr entry0 \<Rightarrow>
     (case addFields body2 (entry0\<lparr>Timestamp := word_of_int timestampInt * 1000\<rparr>) of
        Ok entry \<Rightarrow> Ok (entry, cursorString)
      | Err err \<Rightarrow> Err err
      | Panic \<Rightarrow> Panic)))))))))))"

text \<open>
  One turn of the reader loop of \<open>Start\<close> on a line read from the child: \<open>None\<close> is the
  reader task ended by a panic.
\<close>

definition readerStep :: "JournaldInput \<Rightarrow> string \<Rightarrow> JournaldInput option" where
  "readerStep operator line =
     (case parseJournalEntry operator line of
        Panic \<Rightarrow> None
      | Err err \<Rightarrow> Some (operator\<lparr>effects := effects operator @ [WarnEffect err]\<rparr>)
      | Ok (entry, cursor) \<Rightarrow>
          (case persister_Set (persister operator) lastReadCursorKey cursor of
             (serr, p) \<Rightarrow>
               Some (operator\<lparr>persister := p,
                  effects := effects operator
                    @ [SetEffect lastReadCursorKey cursor]
                    @ (case serr of None \<Rightarrow> [] | Some err \<Rightarrow> [WarnEffect err])
                    @ [WriteEffect entry]\<rparr>)))"

text \<open>The reader loop over the lines the child prints before its output ends.\<close>

fun readerLoop :: "JournaldInput \<Rightarrow> string list \<Rightarrow> JournaldInput option" where
  "readerLoop operator [] = Some operator"
| "readerLoop operator (line # lines) =
     (case readerStep operator line of
        None \<Rightarrow> None
      | Some operator' \<Rightarrow> readerLoop operator' lines)"

subsection \<open>A journal line and its decoding\<close>

definition journalLine :: string where
  \<open>journalLine = ''{"__REALTIME_TIMESTAMP":"1600000000000000","__CURSOR":"c1","MESSAGE":"hi","PRIORITY":"3","UNIT":"foo"}''\<close>

definition journalBody :: "(string \<times> val) list" where
  "journalBody =
     [(''__REALTIME_TIMESTAMP'', VString ''1600000000000000''), (''__CURSOR'', VString ''c1''),
      (''MESSAGE'', VString ''hi''), (''PRIORITY'', VString ''3''), (''UNIT'', VString ''foo'')]"

definition decodeTable :: "(string \<times> (string \<times> val) list) list \<Rightarrow> string \<Rightarrow> error + (string \<times> val) list" where
  "decodeTable tab line = (case map_of tab line of None \<Rightarrow> Inl UnmarshalFailed | Some body \<Rightarrow> Inr body)"

definition journalInput :: "(string \<times> (string \<times> val) list) list \<Rightarrow> bool \<Rightarrow> JournaldInput" where
  "journalInput tab f =
     \<lparr>json = decodeTable tab, persister = \<lparr>kv = Map.empty, failing = f\<rparr>, effects = []\<rparr>"

definition journalEntry :: entry where
  "journalEntry = \<lparr>Timestamp = 1600000000000000000, Body = VString ''hi'',
     Attributes = [(''__CURSOR'', ''c1''), (''UNIT'', ''foo'')], Resource = [],
     Severity = Error, SeverityText = ''err''\<rparr>"

definition numericPriorityBody :: "(string \<times> val) list" where
  "numericPriorityBody =
     [(''__REALTIME_TIMESTAMP'', VString ''1600000000000000''), (''__CURSOR'', VString ''c2''),
      (''MESSAGE'', VString ''hi''), (''PRIORITY'', VOther ''3'')]"

definition noMessageBody :: "(string \<times> val) list" where
  "noMessageBody =
     [(''__REALTIME_TIMESTAMP'', VString ''1600000000000000''), (''__CURSOR'', VString ''c3'')]"

text \<open>The cursor a later \<open>Start\<close> would read back from the persister.\<close>

definition persistedCursor :: "JournaldInput \<Rightarrow> string option" where
  "persistedCursor operator = persister_Get (persister operator) lastReadCursorKey"

section \<open>Field paths\<close>

text \<open>
  Modelled from the spec: \<open>entry.Field\<close> and the methods \<open>Read\<close> and \<open>Set\<close> of an Entry belong
  to the entry package, which is not among the sources. By the spec a field path selects the
  body, an attribute, a resource, or a nested path inside the body; \<open>Set\<close> creates intermediate
  mappings and fails if a segment traverses a value that is no mapping; reading into a string
  succeeds only when the selected value is a string.
\<close>

datatype field = BodyField "string list" | AttributeField string | ResourceField string

fun getPath :: "string list \<Rightarrow> val \<Rightarrow> val option" where
  "getPath [] v = Some v"
| "getPath (k # ks) (VMap m) = (case map_of m k of None \<Rightarrow> None | Some v \<Rightarrow> getPath ks v)"
| "getPath (k # ks) v = None"

fun setPath :: "string list \<Rightarrow> val \<Rightarrow> val \<Rightarrow> val option" where
  "setPath [] new old = Some new"
| "setPath (k # ks) new (VMap m) =
     (case setPath ks new (case map_of m k of None \<Rightarrow> VNil | Some v \<Rightarrow> v) of
        None \<Rightarrow> None
      | Some v' \<Rightarrow> Some (VMap (AList.update k v' m)))"
| "setPath (k # ks) new VNil =
     (case setPath ks new VNil of
        None \<Rightarrow> None
      | Some v' \<Rightarrow> Some (VMap [(k, v')]))"
| "setPath (k # ks) new old = None"

definition entry_Get :: "field \<Rightarrow> entry \<Rightarrow> val option" where
  "entry_Get f e =
     (case f of
        BodyField ks \<Rightarrow> getPath ks (Body e)
      | AttributeField k \<Rightarrow> map_option VString (map_of (Attributes e) k)
      | ResourceField k \<Rightarrow> map_option VString (map_of (Resource e) k))"

text \<open>\<open>e.Read(field, &s)\<close> with a string target.\<close>

definition entry_Read :: "field \<Rightarrow> entry \<Rightarrow> error + string" where
  "entry_Read f e =
     (case entry_Get f e of
        Some (VString s) \<Rightarrow> Inr s
      | _ \<Rightarrow> Inl FieldNotString)"

text \<open>\<open>e.Set(field, s)\<close> with a string value; the Entry is returned updated.\<close>

definition entry_Set :: "field \<Rightarrow> string \<Rightarrow> entry \<Rightarrow> error + entry" where
  "entry_Set f s e =
     (case f of
        BodyField ks \<Rightarrow>
          (case setPath ks (VString s) (Body e) of
             None \<Rightarrow> Inl FieldSetFailed
           | Some b \<Rightarrow> Inr (e\<lparr>Body := b\<rparr>))
      | AttributeField k \<Rightarrow> Inr (e\<lparr>Attributes := AList.update k s (Attributes e)\<rparr>)
      | ResourceField k \<Rightarrow> Inr (e\<lparr>Resource := AList.update k s (Resource e)\<rparr>))"

section \<open>The recombine transformer\<close>

text \<open>
  \<open>RecombineOperatorConfig\<close>. \<open>OnError\<close> is the \<open>on_error\<close> of the embedded transformer
  configuration; \<open>CombineField\<close> is \<open>None\<close> when the field interface is nil. Durations are
  counts of nanoseconds.
\<close>

record RecombineOperatorConfig =
  OnError :: string
  IsFirstEntry :: string
  IsLastEntry :: string
  MaxBatchSize :: int
  CombineField :: "field option"
  CombineWith :: string
  SourceIdentifier :: field
  OverwriteWith :: string
  ForceFlushTimeout :: int
  MaxSources :: int

definition NewRecombineOperatorConfig :: RecombineOperatorConfig where
  "NewRecombineOperatorConfig =
     \<lparr>OnError = ''send'', IsFirstEntry = [], IsLastEntry = [], MaxBatchSize = 1000,
      CombineField = None, CombineWith = [CHR 0x0A], SourceIdentifier = AttributeField ''file.path'',
      OverwriteWith = ''oldest'', ForceFlushTimeout = 5000000000, MaxSources = 1000\<rparr>"

text \<open>
  \<open>RecombineOperator\<close>. \<open>prog\<close> is the compiled predicate run on an Entry (\<open>expr.Run\<close> on the
  environment of the Entry), which yields a boolean or fails. The batch map is a list of
  bindings with distinct keys, a new key going to the end, and \<open>range\<close> visits the bindings in
  the order of the list (Go leaves the order open). \<open>written\<close> lists the Entries handed to
  \<open>Write\<close>, oldest first; \<open>tickerResets\<close> counts the calls of \<open>ticker.Reset\<close>; \<open>closed\<close>
  tells whether \<open>chClose\<close> has been closed.
\<close>

record RecombineOperator =
  onError :: string
  matchFirstLine :: bool
  prog :: "entry \<Rightarrow> error + bool"
  maxBatchSize :: int
  maxSources :: int
  overwriteWithOldest :: bool
  combineField :: field
  combineWith :: string
  forceFlushTimeout :: int
  sourceIdentifier :: field
  batchMap :: "(string \<times> entry list) list"
  written :: "entry list"
  tickerResets :: nat
  closed :: bool

text \<open>
  Modelled from the spec: \<open>TransformerConfig.Build\<close> belongs to the helper package, which is
  not among the sources. By the spec any \<open>on_error\<close> other than "send" and "drop" makes Build
  fail.
\<close>

definition TransformerConfig_Build :: "RecombineOperatorConfig \<Rightarrow> error + string" where
  "TransformerConfig_Build c =
     (if OnError c = ''send'' \<or> OnError c = ''drop'' then Inr (OnError c)
      else Inl BuildTransformerFailed)"

text \<open>
  \<open>Build\<close>. \<open>compile\<close> stands for \<open>expr.Compile\<close> of the expression library.
  \<open>time.NewTicker\<close> panics on a duration that is not positive.
\<close>

definition Build ::
  "(string \<Rightarrow> error + (entry \<Rightarrow> error + bool)) \<Rightarrow> RecombineOperatorConfig
    \<Rightarrow> RecombineOperator list result" where
  "Build compile c =
     (case TransformerConfig_Build c of
        Inl err \<Rightarrow> Err BuildTransformerFailed
      | Inr transformer \<Rightarrow>
     if IsLastEntry c \<noteq> [] \<and> IsFirstEntry c \<noteq> [] then Err OnlyOneOfFirstLast
     else if IsLastEntry c = [] \<and> IsFirstEntry c = [] then Err OneOfFirstLastRequired
     else
     (case (if IsFirstEntry c \<noteq> []
            then (case compile (IsFirstEntry c) of
                    Inl err \<Rightarrow> Inl CompileFirstFailed | Inr p \<Rightarrow> Inr (True, p))
            else (case compile (IsLastEntry c) of
                    Inl err \<Rightarrow> Inl CompileLastFailed | Inr p \<Rightarrow> Inr (False, p))) of
        Inl err \<Rightarrow> Err err
      | Inr (matchesFirst, p) \<Rightarrow>
     (case CombineField c of
        None \<Rightarrow> Err MissingCombineField
      | Some cf \<Rightarrow>
     if OverwriteWith c \<noteq> ''newest'' \<and> OverwriteWith c \<noteq> ''oldest'' \<and> OverwriteWith c \<noteq> []
     then Err (InvalidOverwriteWith (OverwriteWith c))
     else if ForceFlushTimeout c \<le> 0 then Panic
     else Ok [\<lparr>onError = transformer,
               matchFirstLine = matchesFirst,
               prog = p,
               maxBatchSize = MaxBatchSize c,
               maxSources = MaxSources c,
               overwriteWithOldest = (OverwriteWith c \<noteq> ''newest''),
               combineField = cf,
               combineWith = CombineWith c,
               forceFlushTimeout = ForceFlushTimeout c,
               sourceIdentifier = SourceIdentifier c,
               batchMap = [],
               written = [],
               tickerResets = 0,
               closed = False\<rparr>])))"

definition DefaultSourceIdentifier :: string where
  "DefaultSourceIdentifier = ''DefaultSourceIdentifier''"

text \<open>
  Modelled from the spec: \<open>Write\<close> of the helper package hands the Entry to the output of the
  operator.
\<close>

definition Write :: "entry \<Rightarrow> RecombineOperator \<Rightarrow> RecombineOperator" where
  "Write e r = r\<lparr>written := written r @ [e]\<rparr>"

text \<open>
  Modelled from the spec: \<open>HandleEntryError\<close> of the transformer base. With \<open>on_error\<close>
  "send" it forwards the Entry unchanged and returns nil; otherwise it returns the error.
\<close>

definition HandleEntryError ::
  "RecombineOperator \<Rightarrow> entry \<Rightarrow> error \<Rightarrow> error option \<times> RecombineOperator" where
  "HandleEntryError r e err =
     (if onError r = ''send'' then (None, Write e r) else (Some err, r))"

definition matchIndicatesFirst :: "RecombineOperator \<Rightarrow> bool" where
  "matchIndicatesFirst r = matchFirstLine r"

definition matchIndicatesLast :: "RecombineOperator \<Rightarrow> bool" where
  "matchIndicatesLast r = (\<not> matchFirstLine r)"

text \<open>
  \<open>flushUncombined\<close>: every Entry of every batch is written as it is, then the map is
  replaced by an empty one and the ticker is reset.
\<close>

definition flushUncombined :: "RecombineOperator \<Rightarrow> RecombineOperator" where
  "flushUncombined r =
     r\<lparr>written := written r @ concat (map snd (batchMap r)),
       batchMap := [],
       tickerResets := Suc (tickerResets r)\<rparr>"

text \<open>
  The loop of \<open>flushSource\<close> that fills the string builder. An Entry whose read fails is
  passed over; after a value that is read, the separator is written unless the Entry is the
  last of the batch (\<open>i != len(entries)-1\<close>, that is, unless no Entry follows).
\<close>

fun recombined :: "RecombineOperator \<Rightarrow> entry list \<Rightarrow> string" where
  "recombined r [] = []"
| "recombined r (e # es) =
     (case entry_Read (combineField r) e of
        Inl err \<Rightarrow> recombined r es
      | Inr s \<Rightarrow> s @ (if es \<noteq> [] then combineWith r else []) @ recombined r es)"

definition flushSource :: "string \<Rightarrow> RecombineOperator \<Rightarrow> error option \<times> RecombineOperator" where
  "flushSource source r =
     (case map_of (batchMap r) source of
        None \<Rightarrow> (None, r)
      | Some entries \<Rightarrow>
          if length entries = 0 then (None, r)
          else
            (let base = (if overwriteWithOldest r then entries ! 0
                         else entries ! (length entries - 1))
             in case entry_Set (combineField r) (recombined r entries) base of
                  Inl err \<Rightarrow> (Some err, r)
                | Inr base' \<Rightarrow>
                    (None, (Write base' r)\<lparr>batchMap := AList.delete source (batchMap r)\<rparr>)))"

definition addToBatch :: "entry \<Rightarrow> string \<Rightarrow> RecombineOperator \<Rightarrow> RecombineOperator" where
  "addToBatch e source r =
     (case map_of (batchMap r) source of
        None \<Rightarrow>
          (let r1 = r\<lparr>batchMap := AList.update source [e] (batchMap r)\<rparr>
           in if int (length (batchMap r1)) \<ge> maxSources r1 then flushUncombined r1 else r1)
      | Some batch \<Rightarrow>
          (let r1 = r\<lparr>batchMap := AList.update source (batch @ [e]) (batchMap r)\<rparr>
           in if int (length (batch @ [e])) \<ge> maxBatchSize r1 then snd (flushSource source r1)
              else r1))"

text \<open>The source key \<open>Process\<close> computes for an Entry.\<close>

definition sourceOf :: "RecombineOperator \<Rightarrow> entry \<Rightarrow> string" where
  "sourceOf r e =
     (let s = (case entry_Read (sourceIdentifier r) e of
                 Inl err \<Rightarrow> DefaultSourceIdentifier
               | Inr s \<Rightarrow> s)
      in if s = [] then DefaultSourceIdentifier else s)"

definition Process :: "RecombineOperator \<Rightarrow> entry \<Rightarrow> error option \<times> RecombineOperator" where
  "Process r e =
     (case prog r e of
        Inl err \<Rightarrow> HandleEntryError r e err
      | Inr matches \<Rightarrow>
          (let s = sourceOf r e
           in if matches \<and> matchIndicatesFirst r then
                (case flushSource s r of
                   (Some err, r') \<Rightarrow> (Some err, r')
                 | (None, r') \<Rightarrow> (None, addToBatch e s r'))
              else if matches \<and> matchIndicatesLast r then
                (case flushSource s (addToBatch e s r) of
                   (Some err, r') \<Rightarrow> (Some err, r')
                 | (None, r') \<Rightarrow> (None, r'))
              else (None, addToBatch e s r)))"

text \<open>Feeding a sequence of Entries to \<open>Process\<close>, whatever each call returns.\<close>

fun ProcessAll :: "RecombineOperator \<Rightarrow> entry list \<Rightarrow> RecombineOperator" where
  "ProcessAll r [] = r"
| "ProcessAll r (e # es) = ProcessAll (snd (Process r e)) es"

text \<open>
  \<open>timeNow.Sub(lastEntryTs)\<close>: the difference as a duration, which stops at the least and
  the greatest 64-bit value.
\<close>

definition time_Sub :: "int \<Rightarrow> 64 word \<Rightarrow> int" where
  "time_Sub now ts = max (- (2 ^ 63)) (min (2 ^ 63 - 1) (now - sint ts))"

text \<open>
  The body of \<open>flushLoop\<close> on a tick at time \<open>now\<close>. Indexing an empty batch at
  \<open>len(entries)-1\<close> panics.
\<close>

fun tickLoop ::
  "int \<Rightarrow> (string \<times> entry list) list \<Rightarrow> RecombineOperator \<Rightarrow> RecombineOperator result" where
  "tickLoop now [] r = Ok r"
| "tickLoop now ((source, entries) # rest) r =
     (if length entries = 0 then Panic
      else if time_Sub now (Timestamp (entries ! (length entries - 1))) < forceFlushTimeout r
      then tickLoop now rest r
      else tickLoop now rest (snd (flushSource source r)))"

definition tick :: "int \<Rightarrow> RecombineOperator \<Rightarrow> RecombineOperator result" where
  "tick now r =
     (case tickLoop now (batchMap r) r of
        Ok r' \<Rightarrow> Ok (r'\<lparr>tickerResets := Suc (tickerResets r')\<rparr>)
      | Err err \<Rightarrow> Err err
      | Panic \<Rightarrow> Panic)"

text \<open>\<open>Stop\<close>: closing \<open>chClose\<close> a second time panics.\<close>

definition Stop :: "RecombineOperator \<Rightarrow> RecombineOperator result" where
  "Stop r = (if closed r then Panic else Ok ((flushUncombined r)\<lparr>closed := True\<rparr>))"

text \<open>What happens to a started operator: an Entry arrives, the ticker fires, or it is stopped.\<close>

datatype event = Arrive entry | Tick int | Stopped

definition step :: "RecombineOperator \<Rightarrow> event \<Rightarrow> RecombineOperator result" where
  "step r ev =
     (case ev of
        Arrive e \<Rightarrow> Ok (snd (Process r e))
      | Tick now \<Rightarrow> tick now r
      | Stopped \<Rightarrow> Stop r)"

fun run :: "RecombineOperator \<Rightarrow> event list \<Rightarrow> RecombineOperator result" where
  "run r [] = Ok r"
| "run r (ev # evs) =
     (case step r ev of
        Ok r' \<Rightarrow> run r' evs
      | Err err \<Rightarrow> Err err
      | Panic \<Rightarrow> Panic)"

text \<open>The values of the Entries of a batch whose combine field can be read, in order.\<close>

definition readable :: "RecombineOperator \<Rightarrow> entry list \<Rightarrow> string list" where
  "readable r es =
     concat (map (\<lambda>e. case entry_Read (combineField r) e of Inl err \<Rightarrow> [] | Inr s \<Rightarrow> [s]) es)"

subsection \<open>A recombiner for lines that start with A\<close>

text \<open>An Entry read from the file \<open>path\<close> with the body \<open>text\<close>.\<close>

definition lineEntry :: "string \<Rightarrow> string \<Rightarrow> entry" where
  "lineEntry path text = entry_New\<lparr>Body := VString text, Attributes := [(''file.path'', path)]\<rparr>"

text \<open>What the predicate \<open>$body matches "^A"\<close> computes, and a compiler that knows it.\<close>

definition startsWithA :: "entry \<Rightarrow> error + bool" where
  "startsWithA e = (case Body e of VString (c # cs) \<Rightarrow> Inr (c = CHR ''A'') | _ \<Rightarrow> Inr False)"

definition compileKnown :: "string \<Rightarrow> error + (entry \<Rightarrow> error + bool)" where
  \<open>compileKnown s = (if s = ''$body matches "^A"'' then Inr startsWithA else Inl PredicateFailed)\<close>

definition firstEntryConfig :: RecombineOperatorConfig where
  \<open>firstEntryConfig = NewRecombineOperatorConfig
     \<lparr>IsFirstEntry := ''$body matches "^A"'', CombineField := Some (BodyField [])\<rparr>\<close>

definition firstEntryOperator :: RecombineOperator where
  "firstEntryOperator =
     \<lparr>onError = ''send'', matchFirstLine = True, prog = startsWithA, maxBatchSize = 1000,
      maxSources = 1000, overwriteWithOldest = True, combineField = BodyField [],
      combineWith = [CHR 0x0A], forceFlushTimeout = 5000000000,
      sourceIdentifier = AttributeField ''file.path'', batchMap = [], written = [],
      tickerResets = 0, closed = False\<rparr>"

subsection \<open>Runs of a sequence of Entries\<close>

text \<open>
  The sequence cut before every element that satisfies \<open>p\<close>: each run goes on as long as
  no further element satisfies \<open>p\<close>. Every run but the first starts with such an element.
\<close>

function runs :: "('a \<Rightarrow> bool) \<Rightarrow> 'a list \<Rightarrow> 'a list list" where
  "runs p [] = []"
| "runs p (x # xs) = (x # takeWhile (\<lambda>y. \<not> p y) xs) # runs p (dropWhile (\<lambda>y. \<not> p y) xs)"
  by pat_completeness auto
termination
  by (relation "measure (\<lambda>(p, xs). length xs)") (auto simp: length_dropWhile_le less_Suc_eq_le)

text \<open>An Entry matches when the predicate of the operator yields true on it.\<close>

definition isMatch :: "RecombineOperator \<Rightarrow> entry \<Rightarrow> bool" where
  "isMatch r e = (prog r e = Inr True)"

text \<open>
  What a run is combined into: its first Entry with the combine field set to the readable
  values of the run joined with the separator (an error if that \<open>Set\<close> fails).
\<close>

definition combinedRun :: "RecombineOperator \<Rightarrow> entry list \<Rightarrow> error + entry" where
  "combinedRun r es =
     entry_Set (combineField r) (join (combineWith r) (readable r es)) (hd es)"

text \<open>The maximal runs that start with an element satisfying \<open>p\<close>.\<close>

definition matchRuns :: "('a \<Rightarrow> bool) \<Rightarrow> 'a list \<Rightarrow> 'a list list" where
  "matchRuns p xs = runs p (dropWhile (\<lambda>x. \<not> p x) xs)"

subsection \<open>Histories and the invariant of the batch map\<close>

text \<open>The Entries that arrived in a sequence of events, in order.\<close>

fun arrivals :: "event list \<Rightarrow> entry list" where
  "arrivals [] = []"
| "arrivals (Arrive e # evs) = e # arrivals evs"
| "arrivals (ev # evs) = arrivals evs"

text \<open>The settings the invariant speaks about are those of the built operator.\<close>

definition sameConfig :: "RecombineOperator \<Rightarrow> RecombineOperator \<Rightarrow> bool" where
  "sameConfig c r \<longleftrightarrow>
     maxBatchSize r = maxBatchSize c \<and> combineField r = combineField c
     \<and> sourceIdentifier r = sourceIdentifier c"

text \<open>
  A batch under the key \<open>k\<close> after the history \<open>h\<close>: it is not empty, it is shorter than
  \<open>max_batch_size\<close> (or has just been started), and its Entries are Entries of the source
  \<open>k\<close> in their order of arrival.
\<close>

definition goodBatch :: "RecombineOperator \<Rightarrow> entry list \<Rightarrow> string \<Rightarrow> entry list \<Rightarrow> bool" where
  "goodBatch c h k b \<longleftrightarrow>
     b \<noteq> [] \<and> (int (length b) < maxBatchSize c \<or> length b = 1)
     \<and> subseq b (filter (\<lambda>e. sourceOf c e = k) h)"

definition batchInv :: "RecombineOperator \<Rightarrow> RecombineOperator \<Rightarrow> entry list \<Rightarrow> bool" where
  "batchInv c r h \<longleftrightarrow>
     sameConfig c r \<and> distinct (map fst (batchMap r))
     \<and> (\<forall>k b. map_of (batchMap r) k = Some b \<longrightarrow> goodBatch c h k b)"

text \<open>Every Entry of the history accepts a \<open>Set\<close> of the combine field.\<close>

definition setOk :: "RecombineOperator \<Rightarrow> entry list \<Rightarrow> bool" where
  "setOk c h \<longleftrightarrow> (\<forall>e\<in>set h. \<forall>v. \<exists>e'. entry_Set (combineField c) v e = Inr e')"

text \<open>Two lines of one file, a tick after one second, and a line of another file.\<close>

definition sampleEvents :: "event list" where
  "sampleEvents =
     [Arrive (lineEntry ''f1'' ''A1''), Arrive (lineEntry ''f1'' ''x''), Tick 1000000000,
      Arrive (lineEntry ''f2'' ''B1'')]"

text \<open>A configuration that combines the field \<open>body.msg\<close> in batches of at most two.\<close>

definition pathConfig :: RecombineOperatorConfig where
  "pathConfig = firstEntryConfig\<lparr>CombineField := Some (BodyField [''msg'']), MaxBatchSize := 2\<rparr>"

section \<open>Properties of the journald input\<close>

lemma addFields_panics:
  "(''PRIORITY'', v) \<in> set kvs \<Longrightarrow> distinct (map fst kvs) \<Longrightarrow> asString v = None
    \<Longrightarrow> addFields kvs e = Panic"
proof (induction kvs arbitrary: e)
  case Nil
  then show ?case by simp
next
  case (Cons kv kvs)
  obtain k w where kv: "kv = (k, w)" by (cases kv)
  show ?case
  proof (cases "k = ''PRIORITY''")
    case True
    with Cons.prems kv have "w = v" by (auto simp: image_iff)
    with True kv Cons.prems(3) show ?thesis
      by (auto simp: addSeverity_def asString_def split: val.splits)
  next
    case False
    with Cons.prems kv have "(''PRIORITY'', v) \<in> set kvs" "distinct (map fst kvs)" by auto
    from Cons.IH[OF this Cons.prems(3)] False kv show ?thesis by (simp add: Let_def)
  qed
qed

lemma parse_reaches_fields:
  assumes "json operator line = Inr body"
    and "map_of body ''__REALTIME_TIMESTAMP'' = Some (VString ts)"
    and "ParseInt ts = Some t"
    and "map_of body ''__CURSOR'' = Some (VString c)"
    and "map_of body ''MESSAGE'' = Some m"
  shows "parseJournalEntry operator line =
    (case addFields (AList.delete ''MESSAGE'' (AList.delete ''__REALTIME_TIMESTAMP'' body))
            (entry_New\<lparr>Body := m, Timestamp := word_of_int t * 1000\<rparr>) of
       Ok e \<Rightarrow> Ok (e, c) | Err x \<Rightarrow> Err x | Panic \<Rightarrow> Panic)"
  using assms by (simp add: parseJournalEntry_def asString_def NewEntry_def)








lemmas journald_eval =
  parseJournalEntry_def journalInput_def decodeTable_def journalBody_def asString_def
  ParseInt_def digit_def Atoi_def NewEntry_def entry_New_def addSeverity_def convertField_def
  AddAttribute_def severityMapping_def severityText_def Let_def

lemma parse_journalLine:
  "parseJournalEntry (journalInput [(journalLine, journalBody)] f) journalLine
     = Ok (journalEntry, ''c1'')"
  by (simp add: journald_eval journalEntry_def)




text \<open>
  C9. \<open>addSeverity\<close> panics on every value that is not a string, and returns the error
  "severity field is not an int" exactly for the strings that \<open>Atoi\<close> rejects. A line that
  is otherwise well formed and has a \<open>PRIORITY\<close> that is not a string therefore makes
  \<open>parseJournalEntry\<close> panic, which ends the reader task.
\<close>

theorem addSeverity_not_string:
  "(asString sev = None \<longrightarrow> addSeverity e sev = Panic)
   \<and> (addSeverity e sev = Err SeverityNotInt \<longleftrightarrow> (\<exists>s. sev = VString s \<and> Atoi s = None))
   \<and> (json operator line = Inr body \<and> distinct (map fst body)
        \<and> map_of body ''__REALTIME_TIMESTAMP'' = Some (VString ts) \<and> ParseInt ts = Some t
        \<and> map_of body ''__CURSOR'' = Some (VString c) \<and> map_of body ''MESSAGE'' = Some m
        \<and> map_of body ''PRIORITY'' = Some sev \<and> asString sev = None
      \<longrightarrow> parseJournalEntry operator line = Panic \<and> readerStep operator line = None)"
proof (intro conjI impI)
  assume "asString sev = None"
  then show "addSeverity e sev = Panic"
    by (cases sev) (simp_all add: addSeverity_def asString_def)
next
  show "addSeverity e sev = Err SeverityNotInt \<longleftrightarrow> (\<exists>s. sev = VString s \<and> Atoi s = None)"
    by (cases sev) (auto simp: addSeverity_def split: option.splits)
next
  assume h: "json operator line = Inr body \<and> distinct (map fst body)
        \<and> map_of body ''__REALTIME_TIMESTAMP'' = Some (VString ts) \<and> ParseInt ts = Some t
        \<and> map_of body ''__CURSOR'' = Some (VString c) \<and> map_of body ''MESSAGE'' = Some m
        \<and> map_of body ''PRIORITY'' = Some sev \<and> asString sev = None"
  let ?kvs = "AList.delete ''MESSAGE'' (AList.delete ''__REALTIME_TIMESTAMP'' body)"
  have d: "distinct (map fst ?kvs)" using h by (simp add: distinct_delete)
  have "map_of ?kvs ''PRIORITY'' = Some sev" using h by (simp add: delete_conv')
  then have i: "(''PRIORITY'', sev) \<in> set ?kvs" by (rule map_of_SomeD)
  have "addFields ?kvs (entry_New\<lparr>Body := m, Timestamp := word_of_int t * 1000\<rparr>) = Panic"
    using addFields_panics[OF i d] h by simp
  with parse_reaches_fields[of operator line body ts t c m] h
  show p: "parseJournalEntry operator line = Panic" by simp
  then show "readerStep operator line = None" by (simp add: readerStep_def)
qed

theorem addSeverity_not_string_witness:
  "addSeverity entry_New (VOther ''3'') = Panic
   \<and> addSeverity entry_New (VString ''high'') = Err SeverityNotInt
   \<and> readerStep (journalInput [(''n'', numericPriorityBody)] False) ''n'' = None"
proof -
  have a: "asString (VOther ''3'') = None" by (simp add: asString_def)
  have b: "Atoi ''high'' = None" by (simp add: Atoi_def ParseInt_def digit_def)
  have j: "json (journalInput [(''n'', numericPriorityBody)] False) ''n'' = Inr numericPriorityBody"
    by (simp add: journalInput_def decodeTable_def)
  have p: "ParseInt ''1600000000000000'' = Some 1600000000000000"
    by (simp add: ParseInt_def digit_def)
  note t = addSeverity_not_string[of "VOther ''3''" entry_New
      "journalInput [(''n'', numericPriorityBody)] False" "''n''" numericPriorityBody
      "''1600000000000000''" 1600000000000000 "''c2''" "VString ''hi''"]
  note u = addSeverity_not_string[of "VString ''high''" entry_New]
  from t a j p have "addSeverity entry_New (VOther ''3'') = Panic"
    and "readerStep (journalInput [(''n'', numericPriorityBody)] False) ''n'' = None"
    by (simp_all add: numericPriorityBody_def)
  moreover from u b have "addSeverity entry_New (VString ''high'') = Err SeverityNotInt" by blast
  ultimately show ?thesis by simp
qed

text \<open>
  C7. The failing input: a line whose \<open>PRIORITY\<close> is a JSON number. The line is not skipped
  with a warning; the parse panics and the reader task ends. (For a \<open>PRIORITY\<close> string that
  is no integer from 0 to 7 the line is skipped with a warning, see
  \<open>bad_string_priority_skipped\<close> below.)
\<close>

theorem numeric_priority_panics:
  "parseJournalEntry (journalInput [(''n'', numericPriorityBody)] False) ''n'' = Panic
   \<and> readerStep (journalInput [(''n'', numericPriorityBody)] False) ''n'' = None"
  by (simp add: journald_eval numericPriorityBody_def readerStep_def)


text \<open>
  C3, as amended. For a parsed line the reader first calls the persister's \<open>Set\<close> with the
  line's cursor and then writes the Entry; after the step the persisted cursor is that
  line's cursor when the \<open>Set\<close> succeeded. When the \<open>Set\<close> fails the reader warns and still
  writes the Entry, with the persister unchanged. For a line whose parse returns an error
  the reader only warns: nothing is persisted and nothing is written.
\<close>

theorem readerStep_cursor:
  "(parseJournalEntry operator line = Ok (e, c) \<and> \<not> failing (persister operator) \<longrightarrow>
      (\<exists>operator'. readerStep operator line = Some operator'
         \<and> effects operator' = effects operator @ [SetEffect lastReadCursorKey c, WriteEffect e]
         \<and> persister_Get (persister operator') lastReadCursorKey = Some c))
   \<and> (parseJournalEntry operator line = Ok (e, c) \<and> failing (persister operator) \<longrightarrow>
      (\<exists>operator'. readerStep operator line = Some operator'
         \<and> effects operator' = effects operator
              @ [SetEffect lastReadCursorKey c, WarnEffect PersisterSetFailed, WriteEffect e]
         \<and> persister operator' = persister operator))
   \<and> (parseJournalEntry operator line = Err x \<longrightarrow>
      (\<exists>operator'. readerStep operator line = Some operator'
         \<and> effects operator' = effects operator @ [WarnEffect x]
         \<and> persister operator' = persister operator))"
  by (simp add: readerStep_def persister_Set_def persister_Get_def)

theorem readerStep_cursor_witness:
  "(\<exists>operator'. readerStep (journalInput [(journalLine, journalBody)] False) journalLine = Some operator'
         \<and> effects operator' = [SetEffect lastReadCursorKey ''c1'', WriteEffect journalEntry]
         \<and> persister_Get (persister operator') lastReadCursorKey = Some ''c1'')
   \<and> (\<exists>operator'. readerStep (journalInput [(journalLine, journalBody)] True) journalLine = Some operator'
         \<and> effects operator' = [SetEffect lastReadCursorKey ''c1'', WarnEffect PersisterSetFailed,
               WriteEffect journalEntry]
         \<and> persister_Get (persister operator') lastReadCursorKey = None)
   \<and> (\<exists>operator'. readerStep (journalInput [(''m'', noMessageBody)] False) ''m'' = Some operator'
         \<and> effects operator' = [WarnEffect MissingMessage]
         \<and> persister_Get (persister operator') lastReadCursorKey = None)"
proof -
  have m: "parseJournalEntry (journalInput [(''m'', noMessageBody)] False) ''m'' = Err MissingMessage"
    by (simp add: journald_eval noMessageBody_def)
  note a = readerStep_cursor[of "journalInput [(journalLine, journalBody)] False" journalLine
      journalEntry "''c1''"]
  note b = readerStep_cursor[of "journalInput [(journalLine, journalBody)] True" journalLine
      journalEntry "''c1''"]
  note c = readerStep_cursor[of "journalInput [(''m'', noMessageBody)] False" "''m''" _ _
      MissingMessage]
  from a parse_journalLine[of False]
  have 1: "\<exists>operator'. readerStep (journalInput [(journalLine, journalBody)] False) journalLine = Some operator'
         \<and> effects operator' = [SetEffect lastReadCursorKey ''c1'', WriteEffect journalEntry]
         \<and> persister_Get (persister operator') lastReadCursorKey = Some ''c1''"
    by (simp add: journalInput_def)
  from b parse_journalLine[of True]
  have 2: "\<exists>operator'. readerStep (journalInput [(journalLine, journalBody)] True) journalLine = Some operator'
         \<and> effects operator' = [SetEffect lastReadCursorKey ''c1'', WarnEffect PersisterSetFailed,
               WriteEffect journalEntry]
         \<and> persister_Get (persister operator') lastReadCursorKey = None"
    by (auto simp: journalInput_def persister_Get_def)
  from c m
  have 3: "\<exists>operator'. readerStep (journalInput [(''m'', noMessageBody)] False) ''m'' = Some operator'
         \<and> effects operator' = [WarnEffect MissingMessage]
         \<and> persister_Get (persister operator') lastReadCursorKey = None"
    by (auto simp: journalInput_def persister_Get_def)
  from 1 2 3 show ?thesis by blast
qed

text \<open>
  C3 as stated fails when the persister's \<open>Set\<close> returns an error: the line is parsed and
  its Entry written, and no cursor is persisted.
\<close>

theorem cursor_not_persisted_when_Set_fails:
  "parseJournalEntry (journalInput [(journalLine, journalBody)] True) journalLine
      = Ok (journalEntry, ''c1'')
   \<and> readerStep (journalInput [(journalLine, journalBody)] True) journalLine
      = Some ((journalInput [(journalLine, journalBody)] True)
               \<lparr>effects := [SetEffect lastReadCursorKey ''c1'', WarnEffect PersisterSetFailed,
                   WriteEffect journalEntry]\<rparr>)
   \<and> map_option persistedCursor
        (readerStep (journalInput [(journalLine, journalBody)] True) journalLine) = Some None"
  by (simp add: parse_journalLine readerStep_def persister_Set_def persister_Get_def
        persistedCursor_def)
     (simp add: journalInput_def)

lemma addFields_bad_priority:
  "(''PRIORITY'', VString p) \<in> set kvs \<Longrightarrow> distinct (map fst kvs)
    \<Longrightarrow> \<forall>n. Atoi p = Some n \<longrightarrow> n < 0 \<or> 7 < n
    \<Longrightarrow> \<exists>x. addFields kvs e = Err x"
proof (induction kvs arbitrary: e)
  case Nil
  then show ?case by simp
next
  case (Cons kv kvs)
  obtain k w where kv: "kv = (k, w)" by (cases kv)
  show ?case
  proof (cases "k = ''PRIORITY''")
    case True
    with Cons.prems kv have "w = VString p" by (auto simp: image_iff)
    with True kv Cons.prems(3) show ?thesis
      by (cases "Atoi p") (auto simp: addSeverity_def)
  next
    case False
    with Cons.prems kv have "(''PRIORITY'', VString p) \<in> set kvs" "distinct (map fst kvs)" by auto
    from Cons.IH[OF this Cons.prems(3)] False kv show ?thesis by (simp add: Let_def)
  qed
qed

lemma bad_string_priority_skipped:
  assumes "json operator line = Inr body" and "distinct (map fst body)"
    and "map_of body ''__REALTIME_TIMESTAMP'' = Some (VString ts)" and "ParseInt ts = Some t"
    and "map_of body ''__CURSOR'' = Some (VString c)" and "map_of body ''MESSAGE'' = Some m"
    and "map_of body ''PRIORITY'' = Some (VString p)"
    and "\<forall>n. Atoi p = Some n \<longrightarrow> n < 0 \<or> 7 < n"
  shows "\<exists>x. readerStep operator line = Some (operator\<lparr>effects := effects operator @ [WarnEffect x]\<rparr>)"
proof -
  let ?kvs = "AList.delete ''MESSAGE'' (AList.delete ''__REALTIME_TIMESTAMP'' body)"
  have d: "distinct (map fst ?kvs)" using assms(2) by (simp add: distinct_delete)
  have "map_of ?kvs ''PRIORITY'' = Some (VString p)" using assms(7) by (simp add: delete_conv')
  then have i: "(''PRIORITY'', VString p) \<in> set ?kvs" by (rule map_of_SomeD)
  from addFields_bad_priority[OF i d assms(8)]
  obtain x where "addFields ?kvs (entry_New\<lparr>Body := m, Timestamp := word_of_int t * 1000\<rparr>) = Err x"
    by blast
  with parse_reaches_fields[OF assms(1,3,4,5,6)]
  have "parseJournalEntry operator line = Err x" by simp
  then have "readerStep operator line = Some (operator\<lparr>effects := effects operator @ [WarnEffect x]\<rparr>)"
    by (simp add: readerStep_def)
  then show ?thesis by blast
qed

section \<open>Properties of the recombine transformer\<close>



lemma getPath_setPath: "setPath ks new old = Some v \<Longrightarrow> getPath ks v = Some new"
proof (induction ks new old arbitrary: v rule: setPath.induct)
  case (2 k ks new m)
  then show ?case by (auto simp: update_conv' split: option.splits)
next
  case (3 k ks new)
  then show ?case by (auto split: option.splits)
qed simp_all

lemma Read_after_Set: "entry_Set f s e = Inr e' \<Longrightarrow> entry_Read f e' = Inr s"
  by (cases f)
     (auto simp: entry_Set_def entry_Read_def entry_Get_def update_conv' getPath_setPath
       split: option.splits)

lemma setPath_of_getPath: "getPath ks old = Some w \<Longrightarrow> \<exists>v. setPath ks new old = Some v"
proof (induction ks new old rule: setPath.induct)
  case (2 k ks new m)
  then show ?case by (auto split: option.splits)
qed simp_all

lemma Set_of_Read: "entry_Read f e = Inr w \<Longrightarrow> \<exists>e'. entry_Set f s e = Inr e'"
proof (cases f)
  case (BodyField ks)
  assume "entry_Read f e = Inr w"
  with BodyField have "getPath ks (Body e) = Some (VString w)"
    by (auto simp: entry_Read_def entry_Get_def split: option.splits val.splits)
  from setPath_of_getPath[OF this, of "VString s"] BodyField show ?thesis
    by (auto simp: entry_Set_def)
qed (simp_all add: entry_Set_def)

lemma recombined_join:
  "es \<noteq> [] \<Longrightarrow> entry_Read (combineField r) (last es) = Inr s
    \<Longrightarrow> recombined r es = join (combineWith r) (readable r es)"
proof (induction es)
  case Nil
  then show ?case by simp
next
  case (Cons e es)
  show ?case
  proof (cases "es = []")
    case True
    with Cons.prems show ?thesis by (simp add: readable_def)
  next
    case False
    with Cons.prems have l: "entry_Read (combineField r) (last es) = Inr s" by simp
    from False l have ne: "readable r es \<noteq> []"
    proof -
      from False have "last es \<in> set es" by simp
      with l show ?thesis by (auto simp: readable_def intro!: bexI[of _ "last es"])
    qed
    then obtain y ys where y: "readable r es = y # ys" by (cases "readable r es") auto
    from Cons.IH[OF False l] have ih: "recombined r es = join (combineWith r) (readable r es)" .
    show ?thesis
    proof (cases "entry_Read (combineField r) e")
      case (Inl a)
      with ih show ?thesis by (simp add: readable_def)
    next
      case (Inr v)
      have "readable r (e # es) = v # readable r es" using Inr by (simp add: readable_def)
      with Inr False ih y show ?thesis by simp
    qed
  qed
qed

text \<open>
  C4, as amended. \<open>flushSource\<close> does nothing for a key that is absent or has an empty batch.
  For a batch that is not empty the base is the first Entry when \<open>overwrite_with\<close> is oldest and
  the last one otherwise. When \<open>Set\<close> of the combine field on the base succeeds, the base then
  holds the combined string in its combine field, it is written, and the key is removed from
  the batch map; when \<open>Set\<close> fails, \<open>flushSource\<close> returns the error and writes and removes
  nothing. Whenever the combine field of the last Entry of the batch can be read, the
  combined string is the readable values of the batch joined with \<open>combine_with\<close>.
\<close>

theorem flushSource_combines:
  "(map_of (batchMap r) source = None \<or> map_of (batchMap r) source = Some []
      \<longrightarrow> flushSource source r = (None, r))
   \<and> (map_of (batchMap r) source = Some entries \<and> entries \<noteq> []
        \<and> base = (if overwriteWithOldest r then hd entries else last entries) \<longrightarrow>
       (\<forall>base'. entry_Set (combineField r) (recombined r entries) base = Inr base' \<longrightarrow>
          flushSource source r
            = (None, r\<lparr>written := written r @ [base'],
                        batchMap := AList.delete source (batchMap r)\<rparr>)
          \<and> entry_Read (combineField r) base' = Inr (recombined r entries)
          \<and> map_of (AList.delete source (batchMap r)) source = None)
       \<and> (\<forall>err. entry_Set (combineField r) (recombined r entries) base = Inl err \<longrightarrow>
            flushSource source r = (Some err, r))
       \<and> ((\<exists>s. entry_Read (combineField r) (last entries) = Inr s) \<longrightarrow>
            recombined r entries = join (combineWith r) (readable r entries)))"
proof (intro conjI impI allI)
  assume "map_of (batchMap r) source = None \<or> map_of (batchMap r) source = Some []"
  then show "flushSource source r = (None, r)" by (auto simp: flushSource_def)
next
  fix base'
  assume h: "map_of (batchMap r) source = Some entries \<and> entries \<noteq> []
        \<and> base = (if overwriteWithOldest r then hd entries else last entries)"
    and s: "entry_Set (combineField r) (recombined r entries) base = Inr base'"
  from h have b: "base = (if overwriteWithOldest r then entries ! 0 else entries ! (length entries - 1))"
    by (simp add: hd_conv_nth last_conv_nth)
  with h s show "flushSource source r
            = (None, r\<lparr>written := written r @ [base'],
                        batchMap := AList.delete source (batchMap r)\<rparr>)"
    by (auto simp: flushSource_def Write_def Let_def)
  from s show "entry_Read (combineField r) base' = Inr (recombined r entries)"
    by (rule Read_after_Set)
  show "map_of (AList.delete source (batchMap r)) source = None"
    by (simp add: delete_conv')
next
  fix err
  assume h: "map_of (batchMap r) source = Some entries \<and> entries \<noteq> []
        \<and> base = (if overwriteWithOldest r then hd entries else last entries)"
    and s: "entry_Set (combineField r) (recombined r entries) base = Inl err"
  from h have b: "base = (if overwriteWithOldest r then entries ! 0 else entries ! (length entries - 1))"
    by (simp add: hd_conv_nth last_conv_nth)
  with h s show "flushSource source r = (Some err, r)"
    by (auto simp: flushSource_def Let_def)
next
  assume h: "map_of (batchMap r) source = Some entries \<and> entries \<noteq> []
        \<and> base = (if overwriteWithOldest r then hd entries else last entries)"
    and s: "\<exists>s. entry_Read (combineField r) (last entries) = Inr s"
  then show "recombined r entries = join (combineWith r) (readable r entries)"
    by (auto intro: recombined_join)
qed


lemmas recombine_eval =
  Process_def sourceOf_def flushSource_def addToBatch_def flushUncombined_def Write_def
  matchIndicatesFirst_def matchIndicatesLast_def DefaultSourceIdentifier_def
  entry_Read_def entry_Get_def entry_Set_def firstEntryOperator_def startsWithA_def
  lineEntry_def entry_New_def Let_def



text \<open>
  C4 as stated fails when \<open>Set\<close> fails on the base: with the combine field \<open>body.msg\<close> and a
  batch of one Entry whose body is a string, \<open>flushSource\<close> returns the error, writes nothing
  and keeps the key.
\<close>

theorem flushSource_Set_fails:
  "batchMap (ProcessAll (firstEntryOperator\<lparr>combineField := BodyField [''msg'']\<rparr>)
       [lineEntry ''f1'' ''plain''])
     = [(''f1'', [lineEntry ''f1'' ''plain''])]
   \<and> flushSource ''f1'' (ProcessAll (firstEntryOperator\<lparr>combineField := BodyField [''msg'']\<rparr>)
       [lineEntry ''f1'' ''plain''])
     = (Some FieldSetFailed, ProcessAll (firstEntryOperator\<lparr>combineField := BodyField [''msg'']\<rparr>)
       [lineEntry ''f1'' ''plain''])"
  by (simp add: recombine_eval)

text \<open>
  When the combine field of the last Entry of a batch cannot be read, the separator written
  after the value before it stays at the end of the combined string.
\<close>

lemma flushSource_trailing_separator:
  "flushSource ''f1'' (firstEntryOperator\<lparr>batchMap :=
       [(''f1'', [lineEntry ''f1'' ''A1'', (lineEntry ''f1'' [])\<lparr>Body := VNil\<rparr>])]\<rparr>)
     = (None, firstEntryOperator\<lparr>written := [lineEntry ''f1'' (''A1'' @ [CHR 0x0A])]\<rparr>)"
  by (simp add: recombine_eval)

theorem flushSource_combines_witness:
  "flushSource ''f2'' (firstEntryOperator\<lparr>batchMap :=
       [(''f1'', [lineEntry ''f1'' ''A1'', lineEntry ''f1'' ''x'', lineEntry ''f1'' ''y''])]\<rparr>)
     = (None, firstEntryOperator\<lparr>batchMap :=
       [(''f1'', [lineEntry ''f1'' ''A1'', lineEntry ''f1'' ''x'', lineEntry ''f1'' ''y''])]\<rparr>)
   \<and> flushSource ''f1'' (firstEntryOperator\<lparr>batchMap :=
       [(''f1'', [lineEntry ''f1'' ''A1'', lineEntry ''f1'' ''x'', lineEntry ''f1'' ''y''])]\<rparr>)
     = (None, firstEntryOperator\<lparr>written :=
          [lineEntry ''f1'' (''A1'' @ [CHR 0x0A] @ ''x'' @ [CHR 0x0A] @ ''y'')]\<rparr>)
   \<and> flushSource ''f1'' (firstEntryOperator\<lparr>combineField := BodyField [''msg''],
         batchMap := [(''f1'', [lineEntry ''f1'' ''plain''])]\<rparr>)
     = (Some FieldSetFailed, firstEntryOperator\<lparr>combineField := BodyField [''msg''],
         batchMap := [(''f1'', [lineEntry ''f1'' ''plain''])]\<rparr>)
   \<and> recombined firstEntryOperator
        [lineEntry ''f1'' ''A1'', lineEntry ''f1'' ''x'', lineEntry ''f1'' ''y'']
     = join [CHR 0x0A] [''A1'', ''x'', ''y'']"
proof -
  let ?es = "[lineEntry ''f1'' ''A1'', lineEntry ''f1'' ''x'', lineEntry ''f1'' ''y'']"
  let ?r = "firstEntryOperator\<lparr>batchMap := [(''f1'', ?es)]\<rparr>"
  let ?q = "firstEntryOperator\<lparr>combineField := BodyField [''msg''],
         batchMap := [(''f1'', [lineEntry ''f1'' ''plain''])]\<rparr>"
  note a = flushSource_combines[of ?r "''f2''"]
  note b = flushSource_combines[of ?r "''f1''" ?es "lineEntry ''f1'' ''A1''"]
  note c = flushSource_combines[of ?q "''f1''" "[lineEntry ''f1'' ''plain'']" "lineEntry ''f1'' ''plain''"]
  have rc: "recombined ?r ?es = ''A1'' @ [CHR 0x0A] @ ''x'' @ [CHR 0x0A] @ ''y''"
    by (simp add: recombine_eval)
  have rd: "readable ?r ?es = [''A1'', ''x'', ''y'']"
    by (simp add: readable_def recombine_eval)
  have rr: "recombined firstEntryOperator ?es = recombined ?r ?es"
    by (simp add: recombine_eval)
  from a have 1: "flushSource ''f2'' ?r = (None, ?r)" by simp
  from b rc have 2: "flushSource ''f1'' ?r = (None, firstEntryOperator\<lparr>written :=
          [lineEntry ''f1'' (''A1'' @ [CHR 0x0A] @ ''x'' @ [CHR 0x0A] @ ''y'')]\<rparr>)"
    by (simp add: recombine_eval)
  from c have 3: "flushSource ''f1'' ?q = (Some FieldSetFailed, ?q)"
    by (simp add: recombine_eval)
  from b rd have "recombined ?r ?es = join [CHR 0x0A] [''A1'', ''x'', ''y'']"
    by (simp add: recombine_eval)
  with rr have 4: "recombined firstEntryOperator ?es = join [CHR 0x0A] [''A1'', ''x'', ''y'']"
    by simp
  from 1 2 3 4 show ?thesis by simp
qed


lemma runs_Nil_iff [simp]: "runs p xs = [] \<longleftrightarrow> xs = []"
  by (cases xs) simp_all

lemma runs_snoc:
  "runs p (xs @ [x]) =
     (if p x \<or> xs = [] then runs p xs @ [[x]]
      else butlast (runs p xs) @ [last (runs p xs) @ [x]])"
proof (induction p xs rule: runs.induct)
  case (1 p)
  show ?case by simp
next
  case (2 p y ys)
  let ?n = "\<lambda>z. \<not> p z"
  show ?case
  proof (cases "\<forall>z\<in>set ys. ?n z")
    case True
    then have t: "takeWhile ?n ys = ys" and d: "dropWhile ?n ys = []" by simp_all
    from True have tn: "takeWhile ?n (ys @ [x]) = ys @ (if p x then [] else [x])"
      by (simp add: takeWhile_append2)
    from True have dn: "dropWhile ?n (ys @ [x]) = (if p x then [x] else [])"
      by (simp add: dropWhile_append2)
    show ?thesis by (simp add: tn dn t d)
  next
    case False
    then obtain z where z: "z \<in> set ys" "p z" by auto
    then have t: "takeWhile ?n (ys @ [x]) = takeWhile ?n ys"
      by (intro takeWhile_append1[of z]) simp_all
    from z have d: "dropWhile ?n (ys @ [x]) = dropWhile ?n ys @ [x]"
      by (intro dropWhile_append1[of z]) simp_all
    from False have ne: "dropWhile ?n ys \<noteq> []" by simp
    from "2.IH" False ne show ?thesis by (auto simp: t d)
  qed
qed

lemma runs_last_nonempty: "xs \<noteq> [] \<Longrightarrow> last (runs p xs) \<noteq> []"
  by (induction p xs rule: runs.induct) auto

lemma runs_butlast_last: "xs \<noteq> [] \<Longrightarrow> runs p xs = butlast (runs p xs) @ [last (runs p xs)]"
  by simp

lemma runs_set_last: "xs \<noteq> [] \<Longrightarrow> set (last (runs p xs)) \<subseteq> set xs"
proof (induction p xs rule: runs.induct)
  case (1 p)
  then show ?case by simp
next
  case (2 p y ys)
  show ?case
  proof (cases "dropWhile (\<lambda>z. \<not> p z) ys = []")
    case True
    then show ?thesis by (auto dest: set_takeWhileD)
  next
    case False
    with "2.IH" have "set (last (runs p (dropWhile (\<lambda>z. \<not> p z) ys))) \<subseteq> set (dropWhile (\<lambda>z. \<not> p z) ys)"
      by simp
    with False show ?thesis by (auto dest: set_dropWhileD)
  qed
qed

lemma ProcessAll_snoc: "ProcessAll r (es @ [e]) = snd (Process (ProcessAll r es) e)"
  by (induction es arbitrary: r) simp_all

lemma recombined_config:
  "combineField r' = combineField r \<Longrightarrow> combineWith r' = combineWith r
    \<Longrightarrow> recombined r' es = recombined r es"
  by (induction es) (simp_all split: sum.splits)

lemma recombined_all_readable:
  assumes "es \<noteq> []" and "\<forall>e\<in>set es. \<exists>v. entry_Read (combineField r) e = Inr v"
  shows "recombined r es = join (combineWith r) (readable r es)"
proof -
  from assms have "\<exists>v. entry_Read (combineField r) (last es) = Inr v" by simp
  then obtain v where "entry_Read (combineField r) (last es) = Inr v" by blast
  with assms(1) show ?thesis by (rule recombined_join)
qed


lemma runs_lengths_snoc:
  assumes "\<forall>run\<in>set (runs p (xs @ [x])). int (length run) < n"
  shows "\<forall>run\<in>set (runs p xs). int (length run) < n"
proof (cases "p x \<or> xs = []")
  case True
  with assms show ?thesis by (auto simp: runs_snoc)
next
  case False
  then have ne: "xs \<noteq> []" by simp
  from False assms have a: "\<forall>run\<in>set (butlast (runs p xs)). int (length run) < n"
    and b: "int (length (last (runs p xs) @ [x])) < n"
    by (auto simp: runs_snoc)
  show ?thesis
  proof
    fix run assume "run \<in> set (runs p xs)"
    then have "run \<in> set (butlast (runs p xs) @ [last (runs p xs)])" using ne by simp
    then have "run \<in> set (butlast (runs p xs)) \<or> run = last (runs p xs)" by auto
    with a b show "int (length run) < n" by auto
  qed
qed

lemma first_entry_invariant:
  assumes mf: "matchFirstLine r" and ow: "overwriteWithOldest r" and bm: "batchMap r = []"
    and ms: "1 < maxSources r"
  shows "(\<forall>e\<in>set es. sourceOf r e = s) \<Longrightarrow> (\<forall>e\<in>set es. \<exists>m. prog r e = Inr m)
    \<Longrightarrow> (\<forall>e\<in>set es. \<exists>v. entry_Read (combineField r) e = Inr v)
    \<Longrightarrow> (\<forall>run\<in>set (runs (isMatch r) es). int (length run) < maxBatchSize r)
    \<Longrightarrow> \<exists>ws. ProcessAll r es =
            r\<lparr>written := written r @ ws,
              batchMap := (if es = [] then [] else [(s, last (runs (isMatch r) es))])\<rparr>
          \<and> map Inr ws = map (combinedRun r) (butlast (runs (isMatch r) es))"
proof (induction es rule: rev_induct)
  case Nil
  show ?case using bm by simp
next
  case (snoc e es)
  let ?p = "isMatch r"
  from snoc.prems(1) have src: "sourceOf r e = s" and srcs: "\<forall>e\<in>set es. sourceOf r e = s" by simp_all
  from snoc.prems(2) obtain m where m: "prog r e = Inr m" and ps: "\<forall>e\<in>set es. \<exists>m. prog r e = Inr m"
    by auto
  from snoc.prems(3) have rds: "\<forall>e\<in>set es. \<exists>v. entry_Read (combineField r) e = Inr v" by simp
  from snoc.prems(4) have lens: "\<forall>run\<in>set (runs ?p es). int (length run) < maxBatchSize r"
    by (rule runs_lengths_snoc)
  from snoc.IH[OF srcs ps rds lens] obtain ws where
    st: "ProcessAll r es = r\<lparr>written := written r @ ws,
              batchMap := (if es = [] then [] else [(s, last (runs ?p es))])\<rparr>"
    and ws: "map Inr ws = map (combinedRun r) (butlast (runs ?p es))" by blast
  have pm: "?p e = m" using m by (simp add: isMatch_def)
  show ?case
  proof (cases "es = []")
    case True
    let ?r1 = "r\<lparr>written := written r @ ws, batchMap := []\<rparr>"
    from st True have st1: "ProcessAll r es = ?r1" by simp
    have so: "sourceOf ?r1 e = s" using src by (simp add: sourceOf_def)
    have "Process ?r1 e = (None, ?r1\<lparr>batchMap := [(s, [e])]\<rparr>)"
      using m mf ms so
      by (simp add: Process_def flushSource_def addToBatch_def matchIndicatesFirst_def
          matchIndicatesLast_def Let_def)
    with st1 True ws show ?thesis by (simp add: ProcessAll_snoc)
  next
    case False
    let ?b = "last (runs ?p es)"
    let ?r1 = "r\<lparr>written := written r @ ws, batchMap := [(s, ?b)]\<rparr>"
    from st False have st1: "ProcessAll r es = ?r1" by simp
    have so: "sourceOf ?r1 e = s" using src by (simp add: sourceOf_def)
    have bne: "?b \<noteq> []" using False by (rule runs_last_nonempty)
    have bset: "set ?b \<subseteq> set es" using False by (rule runs_set_last)
    show ?thesis
    proof (cases m)
      case True
      have rb: "\<forall>e\<in>set ?b. \<exists>v. entry_Read (combineField r) e = Inr v" using rds bset by blast
      have "recombined ?r1 ?b = recombined r ?b" by (rule recombined_config) simp_all
      with recombined_all_readable[OF bne rb]
      have rc: "recombined ?r1 ?b = join (combineWith r) (readable r ?b)" by simp
      from bne have "hd ?b \<in> set ?b" by simp
      with rb obtain v where "entry_Read (combineField r) (hd ?b) = Inr v" by blast
      from Set_of_Read[OF this, of "join (combineWith r) (readable r ?b)"]
      obtain base' where base': "combinedRun r ?b = Inr base'" by (auto simp: combinedRun_def)
      have fl: "flushSource s ?r1 = (None, ?r1\<lparr>written := written r @ ws @ [base'], batchMap := []\<rparr>)"
        using bne ow rc base'
        by (simp add: flushSource_def combinedRun_def hd_conv_nth Write_def Let_def)
      have "Process ?r1 e = (None, r\<lparr>written := written r @ ws @ [base'], batchMap := [(s, [e])]\<rparr>)"
        using m True mf ms so fl
        by (simp add: Process_def addToBatch_def matchIndicatesFirst_def Let_def)
      moreover have "runs ?p (es @ [e]) = runs ?p es @ [[e]]"
        using pm True by (simp add: runs_snoc)
      moreover have "map Inr (ws @ [base']) = map (combinedRun r) (runs ?p es)"
      proof -
        have "runs ?p es = butlast (runs ?p es) @ [?b]" using False by simp
        then have "map (combinedRun r) (runs ?p es)
            = map (combinedRun r) (butlast (runs ?p es)) @ [combinedRun r ?b]"
          by (metis list.simps(8,9) map_append)
        with ws base' show ?thesis by simp
      qed
      ultimately show ?thesis using st1 by (auto simp: ProcessAll_snoc)
    next
      case nomatch: False
      have rs: "runs ?p (es @ [e]) = butlast (runs ?p es) @ [?b @ [e]]"
        using pm nomatch False by (simp add: runs_snoc)
      with snoc.prems(4) have len: "int (length (?b @ [e])) < maxBatchSize r" by simp
      have "Process ?r1 e = (None, ?r1\<lparr>batchMap := [(s, ?b @ [e])]\<rparr>)"
        using m nomatch so len
        by (simp add: Process_def addToBatch_def Let_def)
      with st1 rs ws show ?thesis
        by (intro exI[of _ ws]) (simp add: ProcessAll_snoc butlast_append)
    qed
  qed
qed

text \<open>
  C2, as amended. A freshly built recombiner with \<open>is_first_entry\<close> and
  \<open>overwrite_with = oldest\<close> is fed Entries of one source, on each of which the predicate
  evaluates and the combine field is a string, with \<open>max_sources\<close> above 1 and every run
  shorter than \<open>max_batch_size\<close>. Cut the sequence before every match: the Entries before the
  first match, if any, are a run of their own. Then exactly one Entry has been written for
  every run but the last, in order, and it is the first Entry of the run with its combine
  field set to the join of the values of the run; the last run is what is buffered.
\<close>

theorem first_entry_runs:
  assumes "matchFirstLine r" and "overwriteWithOldest r" and "batchMap r = []" and "written r = []"
    and "1 < maxSources r"
    and "\<forall>e\<in>set es. sourceOf r e = s"
    and "\<forall>e\<in>set es. \<exists>m. prog r e = Inr m"
    and "\<forall>e\<in>set es. \<exists>v. entry_Read (combineField r) e = Inr v"
    and "\<forall>run\<in>set (runs (isMatch r) es). int (length run) < maxBatchSize r"
  shows "map Inr (written (ProcessAll r es)) = map (combinedRun r) (butlast (runs (isMatch r) es))
    \<and> batchMap (ProcessAll r es) = (if es = [] then [] else [(s, last (runs (isMatch r) es))])"
proof -
  from first_entry_invariant[OF assms(1,2,3,5,6,7,8,9)] obtain ws where
    "ProcessAll r es = r\<lparr>written := written r @ ws,
              batchMap := (if es = [] then [] else [(s, last (runs (isMatch r) es))])\<rparr>"
    and "map Inr ws = map (combinedRun r) (butlast (runs (isMatch r) es))" by blast
  with assms(4) show ?thesis by simp
qed

theorem first_entry_runs_witness:
  "written (ProcessAll firstEntryOperator
      [lineEntry ''f1'' ''A1'', lineEntry ''f1'' ''x'', lineEntry ''f1'' ''y'', lineEntry ''f1'' ''A2''])
     = [lineEntry ''f1'' (''A1'' @ [CHR 0x0A] @ ''x'' @ [CHR 0x0A] @ ''y'')]
   \<and> batchMap (ProcessAll firstEntryOperator
      [lineEntry ''f1'' ''A1'', lineEntry ''f1'' ''x'', lineEntry ''f1'' ''y'', lineEntry ''f1'' ''A2''])
     = [(''f1'', [lineEntry ''f1'' ''A2''])]"
proof -
  let ?es = "[lineEntry ''f1'' ''A1'', lineEntry ''f1'' ''x'', lineEntry ''f1'' ''y'', lineEntry ''f1'' ''A2'']"
  have rn: "runs (isMatch firstEntryOperator) ?es
      = [[lineEntry ''f1'' ''A1'', lineEntry ''f1'' ''x'', lineEntry ''f1'' ''y''], [lineEntry ''f1'' ''A2'']]"
    by (simp add: isMatch_def firstEntryOperator_def startsWithA_def lineEntry_def entry_New_def)
  have 1: "matchFirstLine firstEntryOperator" "overwriteWithOldest firstEntryOperator"
    "batchMap firstEntryOperator = []" "written firstEntryOperator = []"
    "1 < maxSources firstEntryOperator"
    by (simp_all add: firstEntryOperator_def)
  have 2: "\<forall>e\<in>set ?es. sourceOf firstEntryOperator e = ''f1''"
    by (simp add: recombine_eval)
  have 3: "\<forall>e\<in>set ?es. \<exists>m. prog firstEntryOperator e = Inr m"
    by (auto simp: recombine_eval)
  have 4: "\<forall>e\<in>set ?es. \<exists>v. entry_Read (combineField firstEntryOperator) e = Inr v"
    by (simp add: recombine_eval)
  have 5: "\<forall>run\<in>set (runs (isMatch firstEntryOperator) ?es).
      int (length run) < maxBatchSize firstEntryOperator"
    by (simp add: rn) (simp add: firstEntryOperator_def)
  have c: "combinedRun firstEntryOperator
      [lineEntry ''f1'' ''A1'', lineEntry ''f1'' ''x'', lineEntry ''f1'' ''y'']
      = Inr (lineEntry ''f1'' (''A1'' @ [CHR 0x0A] @ ''x'' @ [CHR 0x0A] @ ''y''))"
    by (simp add: combinedRun_def readable_def recombine_eval)
  note th = first_entry_runs[OF 1 2 3 4 5, unfolded rn]
  from th c show ?thesis by (auto simp: map_eq_Cons_conv)
qed

text \<open>
  C2 as stated fails for a sequence that does not start with a match: on the arrival of the
  first match the Entries before it are combined and written, although they are no run that
  starts with a match; the only such run is still buffered.
\<close>

theorem leading_entries_emitted:
  "written (ProcessAll firstEntryOperator [lineEntry ''f1'' ''x'', lineEntry ''f1'' ''A1''])
     = [lineEntry ''f1'' ''x'']
   \<and> \<not> isMatch firstEntryOperator (lineEntry ''f1'' ''x'')
   \<and> matchRuns (isMatch firstEntryOperator) [lineEntry ''f1'' ''x'', lineEntry ''f1'' ''A1'']
     = [[lineEntry ''f1'' ''A1'']]"
  by (simp add: matchRuns_def isMatch_def recombine_eval)

lemma flushSource_cases:
  "flushSource k r = (None, r) \<or> (\<exists>err. flushSource k r = (Some err, r))
   \<or> (\<exists>b base'. map_of (batchMap r) k = Some b \<and> b \<noteq> []
        \<and> flushSource k r = (None, r\<lparr>written := written r @ [base'],
                                      batchMap := AList.delete k (batchMap r)\<rparr>))"
  by (auto simp: flushSource_def Write_def Let_def split: option.splits sum.splits)

lemma sourceOf_config:
  "sourceIdentifier r = sourceIdentifier c \<Longrightarrow> sourceOf r e = sourceOf c e"
  by (simp add: sourceOf_def)

lemma batchInv_delete:
  assumes "batchInv c r h"
  shows "batchInv c (r\<lparr>written := w, batchMap := AList.delete k (batchMap r)\<rparr>) h"
  using assms
  by (auto simp: batchInv_def sameConfig_def distinct_delete delete_conv' split: if_splits)

lemma batchInv_flushSource:
  assumes "batchInv c r h"
  shows "batchInv c (snd (flushSource k r)) h"
proof -
  from flushSource_cases[of k r] show ?thesis
  proof (elim disjE exE conjE)
    assume "flushSource k r = (None, r)"
    with assms show ?thesis by simp
  next
    fix err assume "flushSource k r = (Some err, r)"
    with assms show ?thesis by simp
  next
    fix b base'
    assume "flushSource k r = (None, r\<lparr>written := written r @ [base'],
                                      batchMap := AList.delete k (batchMap r)\<rparr>)"
    with batchInv_delete[OF assms] show ?thesis by simp
  qed
qed

lemma subseq_set: "subseq xs ys \<Longrightarrow> set xs \<subseteq> set ys"
  by (induction rule: list_emb.induct) auto

lemma goodBatch_set: "goodBatch c h k b \<Longrightarrow> set b \<subseteq> set h"
proof -
  assume "goodBatch c h k b"
  then have "subseq b (filter (\<lambda>e. sourceOf c e = k) h)" by (simp add: goodBatch_def)
  then have "set b \<subseteq> set (filter (\<lambda>e. sourceOf c e = k) h)" by (rule subseq_set)
  then show ?thesis by auto
qed

lemma setOk_D: "setOk c h \<Longrightarrow> x \<in> set h \<Longrightarrow> \<exists>e'. entry_Set (combineField c) v x = Inr e'"
  by (simp add: setOk_def)

lemma flushSource_removes:
  assumes inv: "batchInv c r h" and ok: "setOk c h" and m: "map_of (batchMap r) k = Some b"
  shows "map_of (batchMap (snd (flushSource k r))) k = None"
proof -
  from inv m have g: "goodBatch c h k b" by (simp add: batchInv_def)
  then have ne: "b \<noteq> []" by (simp add: goodBatch_def)
  from inv have cf: "combineField r = combineField c" by (simp add: batchInv_def sameConfig_def)
  let ?base = "if overwriteWithOldest r then b ! 0 else b ! (length b - 1)"
  from ne have "?base \<in> set b" by (auto simp: nth_mem)
  with goodBatch_set[OF g] have bh: "?base \<in> set h" by blast
  from setOk_D[OF ok bh, of "recombined r b"] cf
  obtain base' where "entry_Set (combineField r) (recombined r b) ?base = Inr base'"
    by auto
  with m ne show ?thesis by (simp add: flushSource_def Let_def Write_def delete_conv')
qed

lemma goodBatch_mono: "goodBatch c h k b \<Longrightarrow> goodBatch c (h @ [e]) k b"
proof -
  assume g: "goodBatch c h k b"
  then have "subseq b (filter (\<lambda>e. sourceOf c e = k) h)" by (simp add: goodBatch_def)
  then have "subseq b (filter (\<lambda>e. sourceOf c e = k) h @ filter (\<lambda>e. sourceOf c e = k) [e])"
    by (rule subseq_rev_drop_many)
  with g show ?thesis by (simp add: goodBatch_def)
qed

lemma batchInv_mono: "batchInv c r h \<Longrightarrow> batchInv c r (h @ [e])"
  unfolding batchInv_def using goodBatch_mono by blast

lemma setOk_prefix: "setOk c (h @ [e]) \<Longrightarrow> setOk c h"
  by (simp add: setOk_def)

lemma goodBatch_single: "sourceOf c e = s \<Longrightarrow> goodBatch c (h @ [e]) s [e]"
proof -
  assume s: "sourceOf c e = s"
  have "subseq [e] (filter (\<lambda>e. sourceOf c e = s) h @ [e])"
    by (rule list_emb_append2) simp
  with s show ?thesis by (simp add: goodBatch_def)
qed

lemma goodBatch_snoc:
  assumes "goodBatch c h s b" and "sourceOf c e = s" and "int (length (b @ [e])) < maxBatchSize c"
  shows "goodBatch c (h @ [e]) s (b @ [e])"
proof -
  from assms(1) have "subseq b (filter (\<lambda>e. sourceOf c e = s) h)" by (simp add: goodBatch_def)
  then have "subseq (b @ [e]) (filter (\<lambda>e. sourceOf c e = s) h @ [e])"
    by (rule list_emb_append_mono) simp
  with assms(2,3) show ?thesis by (simp add: goodBatch_def)
qed

lemma batchInv_emptied:
  "sameConfig c r \<Longrightarrow> batchInv c (r\<lparr>written := w, batchMap := [], tickerResets := n\<rparr>) h"
  by (simp add: batchInv_def sameConfig_def)

lemma batchInv_addToBatch:
  assumes inv: "batchInv c r h" and ok: "setOk c (h @ [e])" and s: "sourceOf c e = s"
    and mx: "1 \<le> maxBatchSize c"
  shows "batchInv c (addToBatch e s r) (h @ [e])"
proof (cases "map_of (batchMap r) s")
  case None
  let ?r1 = "r\<lparr>batchMap := AList.update s [e] (batchMap r)\<rparr>"
  from inv have sc: "sameConfig c r" and d: "distinct (map fst (batchMap r))"
    and g: "\<And>k b. map_of (batchMap r) k = Some b \<Longrightarrow> goodBatch c h k b"
    by (simp_all add: batchInv_def)
  have i1: "batchInv c ?r1 (h @ [e])"
    unfolding batchInv_def
  proof (intro conjI allI impI)
    show "sameConfig c ?r1" using sc by (simp add: sameConfig_def)
    show "distinct (map fst (batchMap ?r1))" using d by (simp add: distinct_update)
    fix k b assume "map_of (batchMap ?r1) k = Some b"
    then have "(k = s \<and> b = [e]) \<or> (k \<noteq> s \<and> map_of (batchMap r) k = Some b)"
      by (auto simp: update_conv' split: if_splits)
    then show "goodBatch c (h @ [e]) k b"
      using goodBatch_single[OF s] g goodBatch_mono by blast
  qed
  have "addToBatch e s r = (if int (length (batchMap ?r1)) \<ge> maxSources ?r1
      then flushUncombined ?r1 else ?r1)"
    using None by (simp add: addToBatch_def Let_def)
  moreover have "batchInv c (flushUncombined ?r1) (h @ [e])"
    using sc by (simp add: flushUncombined_def batchInv_def sameConfig_def)
  ultimately show ?thesis using i1 by simp
next
  case (Some b)
  let ?r1 = "r\<lparr>batchMap := AList.update s (b @ [e]) (batchMap r)\<rparr>"
  from inv have sc: "sameConfig c r" and d: "distinct (map fst (batchMap r))"
    and g: "\<And>k b. map_of (batchMap r) k = Some b \<Longrightarrow> goodBatch c h k b"
    by (simp_all add: batchInv_def)
  from sc have mb: "maxBatchSize r = maxBatchSize c" and cf: "combineField r = combineField c"
    by (simp_all add: sameConfig_def)
  from g[OF Some] have gb: "goodBatch c h s b" .
  show ?thesis
  proof (cases "int (length (b @ [e])) \<ge> maxBatchSize c")
    case True
    let ?base = "if overwriteWithOldest r then (b @ [e]) ! 0 else (b @ [e]) ! (length (b @ [e]) - 1)"
    have "?base \<in> set (b @ [e])"
      by (cases "overwriteWithOldest r") (simp_all only: if_True if_False nth_mem length_append_singleton diff_Suc_1 lessI zero_less_Suc)
    moreover have "set (b @ [e]) \<subseteq> set (h @ [e])" using goodBatch_set[OF gb] by auto
    ultimately have bh: "?base \<in> set (h @ [e])" by blast
    from setOk_D[OF ok bh, of "recombined ?r1 (b @ [e])"] cf
    obtain base' where
      b': "entry_Set (combineField r) (recombined ?r1 (b @ [e])) ?base = Inr base'"
      by auto
    have fl: "snd (flushSource s ?r1) = r\<lparr>written := written r @ [base'],
        batchMap := AList.delete s (AList.update s (b @ [e]) (batchMap r))\<rparr>"
      using b' by (simp add: flushSource_def update_conv' Write_def Let_def)
    have "batchInv c (r\<lparr>written := written r @ [base'],
        batchMap := AList.delete s (AList.update s (b @ [e]) (batchMap r))\<rparr>) (h @ [e])"
      unfolding batchInv_def
    proof (intro conjI allI impI)
      show "sameConfig c (r\<lparr>written := written r @ [base'],
        batchMap := AList.delete s (AList.update s (b @ [e]) (batchMap r))\<rparr>)"
        using sc by (simp add: sameConfig_def)
      show "distinct (map fst (batchMap (r\<lparr>written := written r @ [base'],
        batchMap := AList.delete s (AList.update s (b @ [e]) (batchMap r))\<rparr>)))"
        using d by (simp add: distinct_delete distinct_update)
      fix k b2 assume "map_of (batchMap (r\<lparr>written := written r @ [base'],
        batchMap := AList.delete s (AList.update s (b @ [e]) (batchMap r))\<rparr>)) k = Some b2"
      then have "k \<noteq> s \<and> map_of (batchMap r) k = Some b2"
        by (auto simp: delete_conv' update_conv' split: if_splits)
      then show "goodBatch c (h @ [e]) k b2" using g goodBatch_mono by blast
    qed
    moreover have "addToBatch e s r = snd (flushSource s ?r1)"
      using Some True mb by (simp add: addToBatch_def Let_def)
    ultimately show ?thesis using fl by simp
  next
    case False
    then have len: "int (length (b @ [e])) < maxBatchSize c" by simp
    have a: "addToBatch e s r = ?r1"
      using Some False mb by (simp add: addToBatch_def Let_def)
    have "batchInv c ?r1 (h @ [e])"
      unfolding batchInv_def
    proof (intro conjI allI impI)
      show "sameConfig c ?r1" using sc by (simp add: sameConfig_def)
      show "distinct (map fst (batchMap ?r1))" using d by (simp add: distinct_update)
      fix k b2 assume "map_of (batchMap ?r1) k = Some b2"
      then have "(k = s \<and> b2 = b @ [e]) \<or> (k \<noteq> s \<and> map_of (batchMap r) k = Some b2)"
        by (auto simp: update_conv' split: if_splits)
      then show "goodBatch c (h @ [e]) k b2"
        using goodBatch_snoc[OF gb s len] g goodBatch_mono by blast
    qed
    with a show ?thesis by simp
  qed
qed

lemma batchInv_written: "batchInv c r h \<Longrightarrow> batchInv c (r\<lparr>written := w\<rparr>) h"
  by (simp add: batchInv_def sameConfig_def)

lemma batchInv_resets: "batchInv c r h \<Longrightarrow> batchInv c (r\<lparr>tickerResets := n\<rparr>) h"
  by (simp add: batchInv_def sameConfig_def)

lemma snd_Process:
  "prog r e = Inr m \<Longrightarrow>
   snd (Process r e) =
     (if m \<and> matchFirstLine r then
        (case fst (flushSource (sourceOf r e) r) of
           Some err \<Rightarrow> snd (flushSource (sourceOf r e) r)
         | None \<Rightarrow> addToBatch e (sourceOf r e) (snd (flushSource (sourceOf r e) r)))
      else if m then snd (flushSource (sourceOf r e) (addToBatch e (sourceOf r e) r))
      else addToBatch e (sourceOf r e) r)"
  by (simp add: Process_def matchIndicatesFirst_def matchIndicatesLast_def Let_def
      split: prod.splits option.splits)

lemma batchInv_Process:
  assumes inv: "batchInv c r h" and ok: "setOk c (h @ [e])" and mx: "1 \<le> maxBatchSize c"
  shows "batchInv c (snd (Process r e)) (h @ [e])"
proof (cases "prog r e")
  case (Inl err)
  then have "snd (Process r e) = r \<or> snd (Process r e) = r\<lparr>written := written r @ [e]\<rparr>"
    by (simp add: Process_def HandleEntryError_def Write_def)
  with batchInv_mono[OF inv, of e] batchInv_written[OF batchInv_mono[OF inv, of e]]
  show ?thesis by auto
next
  case (Inr m)
  from inv have "sourceIdentifier r = sourceIdentifier c" by (simp add: batchInv_def sameConfig_def)
  then have s: "sourceOf c e = sourceOf r e" by (simp add: sourceOf_def)
  let ?s = "sourceOf r e"
  have f: "batchInv c (snd (flushSource ?s r)) h" using inv by (rule batchInv_flushSource)
  have a1: "batchInv c (addToBatch e ?s (snd (flushSource ?s r))) (h @ [e])"
    using f ok s mx by (rule batchInv_addToBatch)
  have a2: "batchInv c (addToBatch e ?s r) (h @ [e])"
    using inv ok s mx by (rule batchInv_addToBatch)
  have a3: "batchInv c (snd (flushSource ?s (addToBatch e ?s r))) (h @ [e])"
    using a2 by (rule batchInv_flushSource)
  have f': "batchInv c (snd (flushSource ?s r)) (h @ [e])" using f by (rule batchInv_mono)
  show ?thesis
    unfolding snd_Process[OF Inr]
    using a1 a2 a3 f' by (simp split: option.splits)
qed

lemma tickLoop_inv:
  "batchInv c r h \<Longrightarrow> \<forall>kb\<in>set xs. snd kb \<noteq> []
    \<Longrightarrow> \<exists>r'. tickLoop now xs r = Ok r' \<and> batchInv c r' h"
proof (induction xs arbitrary: r)
  case Nil
  then show ?case by simp
next
  case (Cons kb xs)
  obtain k b where kb: "kb = (k, b)" by (cases kb)
  with Cons.prems have ne: "b \<noteq> []" and rest: "\<forall>kb\<in>set xs. snd kb \<noteq> []" by simp_all
  from Cons.IH[OF Cons.prems(1) rest]
  obtain r1 where r1: "tickLoop now xs r = Ok r1 \<and> batchInv c r1 h" by blast
  from Cons.IH[OF batchInv_flushSource[OF Cons.prems(1), of k] rest]
  obtain r2 where r2: "tickLoop now xs (snd (flushSource k r)) = Ok r2 \<and> batchInv c r2 h" by blast
  from kb ne r1 r2 show ?case by simp
qed

lemma batchInv_nonempty:
  assumes "batchInv c r h" and "(k, b) \<in> set (batchMap r)"
  shows "goodBatch c h k b"
proof -
  from assms have "map_of (batchMap r) k = Some b" by (simp add: batchInv_def)
  with assms(1) show ?thesis by (simp add: batchInv_def)
qed

lemma tick_inv:
  assumes "batchInv c r h"
  shows "\<exists>r'. tick now r = Ok r' \<and> batchInv c r' h"
proof -
  have "\<forall>kb\<in>set (batchMap r). snd kb \<noteq> []"
  proof
    fix kb assume "kb \<in> set (batchMap r)"
    then have "(fst kb, snd kb) \<in> set (batchMap r)" by simp
    from batchInv_nonempty[OF assms this] show "snd kb \<noteq> []" by (simp add: goodBatch_def)
  qed
  from tickLoop_inv[OF assms this, of now]
  obtain r1 where "tickLoop now (batchMap r) r = Ok r1" and "batchInv c r1 h" by blast
  with batchInv_resets[of c r1 h] show ?thesis by (simp add: tick_def)
qed

lemma step_inv:
  assumes "step r ev = Ok r'" and "batchInv c r h" and "setOk c (h @ arrivals [ev])"
    and "1 \<le> maxBatchSize c"
  shows "batchInv c r' (h @ arrivals [ev])"
proof (cases ev)
  case (Arrive e)
  with assms(1) have "r' = snd (Process r e)" by (simp add: step_def)
  with Arrive batchInv_Process[OF assms(2) _ assms(4), of e] assms(3) show ?thesis by simp
next
  case (Tick now)
  with assms(1) have "tick now r = Ok r'" by (simp add: step_def)
  with tick_inv[OF assms(2), of now] Tick show ?thesis by auto
next
  case Stopped
  with assms(1) have "r' = (flushUncombined r)\<lparr>closed := True\<rparr>"
    by (simp add: step_def Stop_def split: if_splits)
  with assms(2) Stopped show ?thesis
    by (simp add: flushUncombined_def batchInv_def sameConfig_def)
qed

lemma arrivals_Cons: "arrivals (ev # evs) = arrivals [ev] @ arrivals evs"
  by (cases ev) simp_all

lemma setOk_append: "setOk c (xs @ ys) \<Longrightarrow> setOk c xs"
  by (simp add: setOk_def)

lemma run_inv:
  "run r evs = Ok r' \<Longrightarrow> batchInv c r h \<Longrightarrow> setOk c (h @ arrivals evs)
    \<Longrightarrow> 1 \<le> maxBatchSize c \<Longrightarrow> batchInv c r' (h @ arrivals evs)"
proof (induction evs arbitrary: r h)
  case Nil
  then show ?case by simp
next
  case (Cons ev evs)
  from Cons.prems(1) obtain r1 where s: "step r ev = Ok r1" and t: "run r1 evs = Ok r'"
    by (auto split: result.splits)
  have ok: "setOk c ((h @ arrivals [ev]) @ arrivals evs)"
    using Cons.prems(3) by (simp add: arrivals_Cons[of ev evs])
  from setOk_append[OF ok] have ok1: "setOk c (h @ arrivals [ev])" .
  from step_inv[OF s Cons.prems(2) ok1 Cons.prems(4)]
  have i1: "batchInv c r1 (h @ arrivals [ev])" .
  from Cons.IH[OF t i1 ok Cons.prems(4)] show ?case
    by (simp add: arrivals_Cons[of ev evs])
qed

lemma Build_Ok_fields:
  "Build compile cfg = Ok [r0] \<Longrightarrow> batchMap r0 = [] \<and> maxBatchSize r0 = MaxBatchSize cfg"
  by (auto simp: Build_def split: sum.splits option.splits if_splits)

text \<open>
  C6, as amended. Take an operator built from a configuration with \<open>max_batch_size\<close> at
  least 1, and any sequence of arrivals, ticks and a stop in which every Entry that arrives
  accepts a \<open>Set\<close> of the combine field. In the state after the sequence every key of the batch
  map has one batch, which is not empty, holds at most \<open>max_batch_size\<close> Entries, and lists
  Entries of that source in their order of arrival; a tick cannot index an empty batch. And a
  flush of a source either changes nothing (nothing is written and the map is as before), or
  it writes exactly one Entry and removes the key in the same step.
\<close>

theorem batches_bounded:
  assumes "Build compile cfg = Ok [r0]" and "1 \<le> MaxBatchSize cfg"
    and "\<forall>e\<in>set (arrivals evs). \<forall>v. \<exists>e'. entry_Set (combineField r0) v e = Inr e'"
    and "run r0 evs = Ok r"
  shows "distinct (map fst (batchMap r))
    \<and> (\<forall>kb\<in>set (batchMap r).
          0 < length (snd kb) \<and> int (length (snd kb)) \<le> MaxBatchSize cfg
          \<and> subseq (snd kb) (filter (\<lambda>e. sourceOf r0 e = fst kb) (arrivals evs)))
    \<and> (\<forall>now. \<exists>r'. tick now r = Ok r')
    \<and> (\<forall>src. flushSource src r = (None, r)
          \<or> (\<exists>err. flushSource src r = (Some err, r))
          \<or> (\<exists>base'. flushSource src r
                = (None, r\<lparr>written := written r @ [base'],
                            batchMap := AList.delete src (batchMap r)\<rparr>)))"
proof -
  from Build_Ok_fields[OF assms(1)] have b0: "batchMap r0 = []"
    and m0: "maxBatchSize r0 = MaxBatchSize cfg" by simp_all
  have i0: "batchInv r0 r0 []" using b0 by (simp add: batchInv_def sameConfig_def)
  have ok: "setOk r0 ([] @ arrivals evs)" using assms(3) by (simp add: setOk_def)
  have mx: "1 \<le> maxBatchSize r0" using assms(2) m0 by simp
  from run_inv[OF assms(4) i0 ok mx] have inv: "batchInv r0 r (arrivals evs)" by simp
  then have d: "distinct (map fst (batchMap r))" by (simp add: batchInv_def)
  have g: "\<forall>kb\<in>set (batchMap r).
          0 < length (snd kb) \<and> int (length (snd kb)) \<le> MaxBatchSize cfg
          \<and> subseq (snd kb) (filter (\<lambda>e. sourceOf r0 e = fst kb) (arrivals evs))"
  proof
    fix kb assume "kb \<in> set (batchMap r)"
    then have "(fst kb, snd kb) \<in> set (batchMap r)" by simp
    from batchInv_nonempty[OF inv this] assms(2) m0
    show "0 < length (snd kb) \<and> int (length (snd kb)) \<le> MaxBatchSize cfg
          \<and> subseq (snd kb) (filter (\<lambda>e. sourceOf r0 e = fst kb) (arrivals evs))"
      by (auto simp: goodBatch_def)
  qed
  have t: "\<forall>now. \<exists>r'. tick now r = Ok r'"
    using tick_inv[OF inv] by blast
  have f: "\<forall>src. flushSource src r = (None, r)
          \<or> (\<exists>err. flushSource src r = (Some err, r))
          \<or> (\<exists>base'. flushSource src r
                = (None, r\<lparr>written := written r @ [base'],
                            batchMap := AList.delete src (batchMap r)\<rparr>))"
    using flushSource_cases by blast
  from d g t f show ?thesis by blast
qed

lemmas run_eval = run.simps step_def tick_def tickLoop.simps time_Sub_def Stop_def

theorem batches_bounded_witness:
  "run firstEntryOperator sampleEvents
     = Ok (firstEntryOperator\<lparr>batchMap :=
         [(''f1'', [lineEntry ''f1'' ''A1'', lineEntry ''f1'' ''x'']),
          (''f2'', [lineEntry ''f2'' ''B1''])], tickerResets := 1\<rparr>)
   \<and> int (length [lineEntry ''f1'' ''A1'', lineEntry ''f1'' ''x'']) \<le> MaxBatchSize firstEntryConfig
   \<and> subseq [lineEntry ''f1'' ''A1'', lineEntry ''f1'' ''x'']
        (filter (\<lambda>e. sourceOf firstEntryOperator e = ''f1'') (arrivals sampleEvents))"
proof -
  let ?r = "firstEntryOperator\<lparr>batchMap :=
         [(''f1'', [lineEntry ''f1'' ''A1'', lineEntry ''f1'' ''x'']),
          (''f2'', [lineEntry ''f2'' ''B1''])], tickerResets := 1\<rparr>"
  have b: "Build compileKnown firstEntryConfig = Ok [firstEntryOperator]"
    by (simp add: Build_def TransformerConfig_Build_def firstEntryConfig_def
        NewRecombineOperatorConfig_def compileKnown_def firstEntryOperator_def)
  have m: "1 \<le> MaxBatchSize firstEntryConfig"
    by (simp add: firstEntryConfig_def NewRecombineOperatorConfig_def)
  have s: "\<forall>e\<in>set (arrivals sampleEvents). \<forall>v. \<exists>e'.
      entry_Set (combineField firstEntryOperator) v e = Inr e'"
    by (simp add: sampleEvents_def firstEntryOperator_def entry_Set_def)
  have r: "run firstEntryOperator sampleEvents = Ok ?r"
    by (simp add: sampleEvents_def run_eval recombine_eval)
  have i: "(''f1'', [lineEntry ''f1'' ''A1'', lineEntry ''f1'' ''x'']) \<in> set (batchMap ?r)"
    by simp
  from batches_bounded[OF b m s r] i
  have "int (length [lineEntry ''f1'' ''A1'', lineEntry ''f1'' ''x'']) \<le> MaxBatchSize firstEntryConfig
   \<and> subseq [lineEntry ''f1'' ''A1'', lineEntry ''f1'' ''x'']
        (filter (\<lambda>e. sourceOf firstEntryOperator e = ''f1'') (arrivals sampleEvents))"
    by fastforce
  with r show ?thesis by simp
qed

text \<open>
  C6 as stated fails when the flush of a full batch fails: with \<open>max_batch_size = 2\<close>, the
  combine field \<open>body.msg\<close> and Entries whose body is a string, \<open>Set\<close> fails on the base, the
  batch is kept, and the next Entry makes it three Entries long.
\<close>

theorem batch_exceeds_max_when_Set_fails:
  "Build compileKnown pathConfig
     = Ok [firstEntryOperator\<lparr>combineField := BodyField [''msg''], maxBatchSize := 2\<rparr>]
   \<and> run (firstEntryOperator\<lparr>combineField := BodyField [''msg''], maxBatchSize := 2\<rparr>)
       [Arrive (lineEntry ''f1'' ''p1''), Arrive (lineEntry ''f1'' ''p2''),
        Arrive (lineEntry ''f1'' ''p3'')]
     = Ok (firstEntryOperator\<lparr>combineField := BodyField [''msg''], maxBatchSize := 2,
         batchMap := [(''f1'', [lineEntry ''f1'' ''p1'', lineEntry ''f1'' ''p2'',
                                 lineEntry ''f1'' ''p3''])]\<rparr>)"
  by (simp add: pathConfig_def Build_def TransformerConfig_Build_def firstEntryConfig_def
        NewRecombineOperatorConfig_def compileKnown_def run_eval recombine_eval)

end
